theory Spec2Isabelle
  imports Main "HOL-Library.Product_Lexorder"
begin

text \<open>
  A model of the data-radar Dolma wrapper: the pure text functions of
  \<open>processing.py\<close> (normalization, stable ids, span merging and masking) and the
  engine of \<open>downloader.py\<close> (limits, document building, the per-document pipeline,
  sharding). Exceptions are values of a sum type, the storage sinks are the list of
  writes they receive, and the functions of the standard library and of the tagging
  toolkit that cannot be written out are parameters.
\<close>

section \<open>Strings\<close>

text \<open>
  A Python \<open>str\<close> is a sequence of Unicode code points, and the span offsets of
  \<open>processing.py\<close> index code points. A text is therefore a list of code points
  (natural numbers), not a list of 8-bit characters. \<open>ustr\<close> reads an ASCII literal
  as such a text.
\<close>

type_synonym pystr = "nat list"

definition ustr :: "string \<Rightarrow> pystr" where
  "ustr s = map of_char s"

section \<open>processing.py: span merging and masking\<close>

type_synonym span = "int \<times> int"

text \<open>
  Python slicing \<open>text[lo:hi]\<close> and \<open>text[lo:]\<close> on integers: a negative bound counts
  from the end, and every bound is clamped into \<open>0 .. len(text)\<close>.
\<close>

definition slice_bound :: "nat \<Rightarrow> int \<Rightarrow> nat" where
  "slice_bound n i = (if i < 0 then nat (max (i + int n) 0) else min (nat i) n)"

definition py_slice :: "'a list \<Rightarrow> int \<Rightarrow> int \<Rightarrow> 'a list" where
  "py_slice text lo hi =
     (let a = slice_bound (length text) lo; b = slice_bound (length text) hi
      in take (b - a) (drop a text))"

definition py_slice_from :: "'a list \<Rightarrow> int \<Rightarrow> 'a list" where
  "py_slice_from text lo = drop (slice_bound (length text) lo) text"

text \<open>
  \<open>_merge_spans\<close>: the loop body works on the list \<open>merged\<close> through its last element
  (\<open>merged[-1]\<close>); the loop runs over \<open>sorted(spans, key=lambda x: (x[0], x[1]))\<close>.
\<close>

fun merge_step :: "span list \<Rightarrow> span \<Rightarrow> span list" where
  "merge_step merged (s, e) =
     (if e \<le> s then merged
      else if merged = [] \<or> s > snd (last merged) then merged @ [(s, e)]
      else butlast merged @ [(fst (last merged), max (snd (last merged)) e)])"

definition merge_spans :: "span list \<Rightarrow> span list" where
  "merge_spans spans = foldl merge_step [] (sort_key (\<lambda>x. (fst x, snd x)) spans)"

text \<open>
  \<open>mask_spans\<close>: the loop carries the list \<open>out\<close> of pieces and the cursor \<open>cur\<close>;
  the result is \<open>"".join(out)\<close>.
\<close>

fun mask_step :: "pystr \<Rightarrow> pystr \<Rightarrow> pystr list \<times> int \<Rightarrow> span \<Rightarrow> pystr list \<times> int" where
  "mask_step text mask_token (out, cur) (s, e) =
     ((if s > cur then out @ [py_slice text cur s] else out) @ [mask_token], e)"

definition mask_spans :: "pystr \<Rightarrow> span list \<Rightarrow> pystr \<Rightarrow> pystr" where
  "mask_spans text spans mask_token =
     (let merged = merge_spans spans in
      if merged = [] then text
      else
        (case foldl (mask_step text mask_token) ([], 0) merged of
           (out, cur) \<Rightarrow>
             concat (if cur < int (length text) then out @ [py_slice_from text cur] else out)))"

subsection \<open>The contract of the two functions, in the specification's words\<close>

text \<open>
  The specification describes the merge as: discard the spans with \<open>end \<le> start\<close>, sort
  the rest by \<open>(start, end)\<close>, and absorb every span whose start is at most the running
  merged span's end into that span.
\<close>

fun absorb :: "span list \<Rightarrow> span \<Rightarrow> span list" where
  "absorb merged (s, e) =
     (if merged \<noteq> [] \<and> s \<le> snd (last merged)
      then butlast merged @ [(fst (last merged), max (snd (last merged)) e)]
      else merged @ [(s, e)])"

definition merge_spans_spec :: "span list \<Rightarrow> span list" where
  "merge_spans_spec spans =
     foldl absorb [] (sort_key (\<lambda>x. (fst x, snd x)) (filter (\<lambda>(s, e). \<not> e \<le> s) spans))"

text \<open>The character positions a list of spans covers: the union of the half-open ranges.\<close>

definition covered :: "span list \<Rightarrow> int set" where
  "covered spans = (\<Union>(s, e) \<in> set spans. {s..<e})"

text \<open>
  Ordered, disjoint and non-adjacent: every span is non-empty, and each span ends strictly
  before every later span starts.
\<close>

definition separated :: "span list \<Rightarrow> bool" where
  "separated spans \<longleftrightarrow>
     list_all (\<lambda>(s, e). s < e) spans \<and> sorted_wrt (\<lambda>x y. snd x < fst y) spans"

text \<open>
  The masked text, read off the merged spans: the text before each span, the token in
  place of the span, and the rest after the last span. \<open>cur\<close> is the position reached.
\<close>

fun masked :: "pystr \<Rightarrow> pystr \<Rightarrow> nat \<Rightarrow> span list \<Rightarrow> pystr" where
  "masked text mask_token cur [] = drop cur text"
| "masked text mask_token cur ((s, e) # rest) =
     take (nat s - cur) (drop cur text) @ mask_token @ masked text mask_token (nat e) rest"


section \<open>Python values\<close>

text \<open>
  The configuration tree (parsed YAML), the upstream records and the metadata are
  dynamically typed. A dictionary is an association list in insertion order, which is
  also the order in which \<open>json.dumps\<close> writes it; keys are strings, and a lookup reads
  the first binding of a key. Floating-point values are not part of the model.
\<close>

datatype pyval =
    PNone
  | PBool bool
  | PInt int
  | PStr pystr
  | PList "pyval list"
  | PDict "(pystr \<times> pyval) list"

type_synonym dict = "(pystr \<times> pyval) list"

datatype pyerr =
    KeyError pystr
  | TypeError
  | AttributeError
  | ValueError pystr
  | OverflowError

text \<open>Truth value of an object, as \<open>if x\<close>, \<open>x or y\<close> and \<open>not x\<close> test it.\<close>

fun truthy :: "pyval \<Rightarrow> bool" where
  "truthy PNone = False"
| "truthy (PBool b) = b"
| "truthy (PInt i) = (i \<noteq> 0)"
| "truthy (PStr s) = (s \<noteq> [])"
| "truthy (PList xs) = (xs \<noteq> [])"
| "truthy (PDict d) = (d \<noteq> [])"

definition py_or :: "pyval \<Rightarrow> pyval \<Rightarrow> pyval" where
  "py_or a b = (if truthy a then a else b)"

text \<open>\<open>d.get(k, default)\<close>, \<open>d.get(k)\<close> and \<open>d[k]\<close> on a dictionary with a string key.\<close>

definition dict_get_default :: "dict \<Rightarrow> pystr \<Rightarrow> pyval \<Rightarrow> pyval" where
  "dict_get_default d k dflt = (case map_of d k of None \<Rightarrow> dflt | Some v \<Rightarrow> v)"

definition dict_get :: "dict \<Rightarrow> pystr \<Rightarrow> pyval" where
  "dict_get d k = dict_get_default d k PNone"

definition dict_item :: "dict \<Rightarrow> pystr \<Rightarrow> pyerr + pyval" where
  "dict_item d k = (case map_of d k of None \<Rightarrow> Inl (KeyError k) | Some v \<Rightarrow> Inr v)"

text \<open>
  \<open>v[k]\<close> on an arbitrary value with a string key: only a dictionary can be subscripted
  with a string.
\<close>

fun subscript :: "pyval \<Rightarrow> pystr \<Rightarrow> pyerr + pyval" where
  "subscript (PDict d) k = dict_item d k"
| "subscript _ k = Inl TypeError"

text \<open>
  \<open>d.get(key, default)\<close> where the key is itself a value read from the configuration:
  a list or a dictionary is unhashable; any other non-string key is absent from a
  dictionary whose keys are strings.
\<close>

fun dict_get_key :: "dict \<Rightarrow> pyval \<Rightarrow> pyval \<Rightarrow> pyerr + pyval" where
  "dict_get_key d (PStr k) dflt = Inr (dict_get_default d k dflt)"
| "dict_get_key d (PList _) dflt = Inl TypeError"
| "dict_get_key d (PDict _) dflt = Inl TypeError"
| "dict_get_key d _ dflt = Inr dflt"

text \<open>\<open>d[k] = v\<close>: an existing key keeps its position, a new key is appended.\<close>

fun dict_set :: "dict \<Rightarrow> pystr \<Rightarrow> pyval \<Rightarrow> dict" where
  "dict_set [] k v = [(k, v)]"
| "dict_set ((k', v') # d) k v = (if k' = k then (k, v) # d else (k', v') # dict_set d k v)"

text \<open>\<open>{**a, **b}\<close>: a copy of \<open>a\<close> updated with the items of \<open>b\<close> in order.\<close>

definition dict_merge :: "dict \<Rightarrow> dict \<Rightarrow> dict" where
  "dict_merge a b = foldl (\<lambda>d (k, v). dict_set d k v) a b"

text \<open>
  \<open>(d.get(k) or {}) if isinstance(d.get(k), dict) else {}\<close>, the idiom by which the
  code reads a configuration block.
\<close>

definition dict_block :: "dict \<Rightarrow> pystr \<Rightarrow> dict" where
  "dict_block d k = (case dict_get d k of PDict b \<Rightarrow> b | _ \<Rightarrow> [])"

subsection \<open>Conversion to strings\<close>

function dec_digits :: "nat \<Rightarrow> pystr" where
  "dec_digits n = (if n < 10 then [48 + n] else dec_digits (n div 10) @ [48 + n mod 10])"
  by pat_completeness auto
termination
  by (relation "measure id") auto

declare dec_digits.simps [simp del]

definition int_str :: "int \<Rightarrow> pystr" where
  "int_str i = (if i < 0 then 45 # dec_digits (nat (- i)) else dec_digits (nat i))"

text \<open>
  \<open>str(v)\<close>, which is also what an f-string field \<open>{v}\<close> writes. The string form of a
  list or a dictionary is the \<open>repr\<close> of its elements, which depends on Python's tables
  of printable characters: it is the parameter \<open>repr\<close>. Integers are written in full
  (the interpreter's limit on the number of digits is not modelled).
\<close>

fun py_str :: "(pyval \<Rightarrow> pystr) \<Rightarrow> pyval \<Rightarrow> pystr" where
  "py_str repr PNone = ustr ''None''"
| "py_str repr (PBool b) = (if b then ustr ''True'' else ustr ''False'')"
| "py_str repr (PInt i) = int_str i"
| "py_str repr (PStr s) = s"
| "py_str repr (PList xs) = repr (PList xs)"
| "py_str repr (PDict d) = repr (PDict d)"

fun type_name :: "pyval \<Rightarrow> pystr" where
  "type_name PNone = ustr ''NoneType''"
| "type_name (PBool _) = ustr ''bool''"
| "type_name (PInt _) = ustr ''int''"
| "type_name (PStr _) = ustr ''str''"
| "type_name (PList _) = ustr ''list''"
| "type_name (PDict _) = ustr ''dict''"

section \<open>processing.py: normalization and identifiers\<close>

text \<open>
  The characters that \<open>\s\<close> matches in a \<open>str\<close> pattern and that \<open>str.strip()\<close>
  removes are the same: the code points for which CPython's \<open>Py_UNICODE_ISSPACE\<close> holds.
\<close>

definition is_space :: "nat \<Rightarrow> bool" where
  "is_space c \<longleftrightarrow>
     (9 \<le> c \<and> c \<le> 13) \<or> (28 \<le> c \<and> c \<le> 32) \<or> c = 133 \<or> c = 160 \<or> c = 5760
     \<or> (8192 \<le> c \<and> c \<le> 8202) \<or> c = 8232 \<or> c = 8233 \<or> c = 8239 \<or> c = 8287
     \<or> c = 12288"

text \<open>\<open>_WS_RE.sub(" ", text)\<close>: every maximal run of whitespace becomes one space.\<close>

function ws_sub :: "pystr \<Rightarrow> pystr" where
  "ws_sub [] = []"
| "ws_sub (c # cs) = (if is_space c then 32 # ws_sub (dropWhile is_space cs) else c # ws_sub cs)"
  by pat_completeness auto
termination
  by (relation "measure length") (auto simp: length_dropWhile_le less_Suc_eq_le)

definition strip :: "pystr \<Rightarrow> pystr" where
  "strip t = rev (dropWhile is_space (rev (dropWhile is_space t)))"

text \<open>
  \<open>unicode_form.lower() != "none"\<close>: the only characters whose lower case is one of
  \<open>n\<close>, \<open>o\<close>, \<open>e\<close> are these letters and their ASCII capitals, so the test is
  decided by lowering ASCII capitals.
\<close>

definition ascii_lower :: "nat \<Rightarrow> nat" where
  "ascii_lower c = (if 65 \<le> c \<and> c \<le> 90 then c + 32 else c)"

definition lower_is_none :: "pystr \<Rightarrow> bool" where
  "lower_is_none f \<longleftrightarrow> map ascii_lower f = ustr ''none''"

text \<open>
  \<open>normalize_text\<close>. \<open>unicodedata.normalize(form, text)\<close> is the parameter
  \<open>unicodedata_normalize\<close>; it raises \<open>ValueError\<close> on an unknown form. A truthy
  \<open>unicode_form\<close> that is not a string has no method \<open>lower\<close>.
\<close>

definition unicode_stage ::
  "(pystr \<Rightarrow> pystr \<Rightarrow> pyerr + pystr) \<Rightarrow> pystr \<Rightarrow> pyval \<Rightarrow> pyerr + pystr" where
  "unicode_stage unicodedata_normalize text unicode_form =
     (if truthy unicode_form then
        (case unicode_form of
           PStr f \<Rightarrow> if \<not> lower_is_none f then unicodedata_normalize f text else Inr text
         | _ \<Rightarrow> Inl AttributeError)
      else Inr text)"

definition normalize_text ::
  "(pystr \<Rightarrow> pystr \<Rightarrow> pyerr + pystr) \<Rightarrow> pystr option \<Rightarrow> pyval \<Rightarrow> pyval \<Rightarrow> pyerr + pystr" where
  "normalize_text unicodedata_normalize text unicode_form collapse_whitespace =
     (case text of
        None \<Rightarrow> Inr []
      | Some t0 \<Rightarrow>
          (case unicode_stage unicodedata_normalize t0 unicode_form of
             Inl err \<Rightarrow> Inl err
           | Inr t1 \<Rightarrow>
               let t2 = filter (\<lambda>c. c \<noteq> 0) t1
               in Inr (if truthy collapse_whitespace then strip (ws_sub t2) else t2)))"

text \<open>
  \<open>p.encode("utf-8", errors="ignore")\<close>: a surrogate code point cannot be encoded and
  is dropped.
\<close>

definition utf8_char :: "nat \<Rightarrow> nat list" where
  "utf8_char c =
     (if c < 128 then [c]
      else if c < 2048 then [192 + c div 64, 128 + c mod 64]
      else if 55296 \<le> c \<and> c \<le> 57343 then []
      else if c < 65536 then [224 + c div 4096, 128 + (c div 64) mod 64, 128 + c mod 64]
      else [240 + c div 262144, 128 + (c div 4096) mod 64, 128 + (c div 64) mod 64,
            128 + c mod 64])"

definition utf8_encode :: "pystr \<Rightarrow> nat list" where
  "utf8_encode t = concat (map utf8_char t)"

text \<open>
  \<open>stable_id\<close>: the hash object is fed each part that is not \<open>None\<close>, then a NUL byte.
  The state of the hash object is the bytes fed so far; \<open>sha1_hexdigest\<close> stands for
  \<open>hashlib.sha1(bytes).hexdigest()\<close>.
\<close>

definition stable_id :: "(nat list \<Rightarrow> pystr) \<Rightarrow> pystr option list \<Rightarrow> pystr" where
  "stable_id sha1_hexdigest parts =
     sha1_hexdigest
       (foldl (\<lambda>h p. case p of None \<Rightarrow> h | Some t \<Rightarrow> (h @ utf8_encode t) @ [0]) [] parts)"

section \<open>downloader.py: limits\<close>

text \<open>
  \<open>islice(dataset, stop)\<close>: \<open>stop\<close> must be \<open>None\<close> or an integer between 0 and
  \<open>sys.maxsize\<close> (\<open>2^63 - 1\<close> on a 64-bit build); anything else raises \<open>ValueError\<close>
  when the call is made. A stream is the list of the items it yields.
\<close>

definition maxsize :: int where
  "maxsize = 2 ^ 63 - 1"

definition islice_message :: pystr where
  "islice_message =
     ustr ''Stop argument for islice() must be None or an integer: 0 <= x <= sys.maxsize.''"

fun islice :: "'a list \<Rightarrow> pyval \<Rightarrow> pyerr + 'a list" where
  "islice xs PNone = Inr xs"
| "islice xs (PInt n) =
     (if 0 \<le> n \<and> n \<le> maxsize then Inr (take (nat n) xs) else Inl (ValueError islice_message))"
| "islice xs (PBool b) = Inr (take (if b then 1 else 0) xs)"
| "islice xs _ = Inl (ValueError islice_message)"






section \<open>downloader.py: building a document\<close>

text \<open>
  The document record of \<open>_build_doc\<close>: a dictionary with seven fixed keys. \<open>id\<close>,
  \<open>text\<close> and \<open>source\<close> are strings; \<open>created\<close>, \<open>added\<close> and \<open>version\<close> pass the
  upstream value through.
\<close>

record doc =
  doc_id :: pystr
  doc_text :: pystr
  doc_source :: pystr
  doc_created :: pyval
  doc_added :: pyval
  doc_version :: pyval
  doc_metadata :: dict

definition build_doc ::
  "(pyval \<Rightarrow> pystr) \<Rightarrow> (nat list \<Rightarrow> pystr) \<Rightarrow> pystr \<Rightarrow> dict \<Rightarrow> dict \<Rightarrow> dict \<Rightarrow> pyerr + doc" where
  "build_doc repr sha1_hexdigest dataset_name record dcfg extra_metadata =
     (let text_field = dict_get_default dcfg (ustr ''text_field'') (PStr (ustr ''text'')) in
      case dict_get_key record text_field (PStr []) of
        Inl err \<Rightarrow> Inl err
      | Inr raw_text \<Rightarrow>
          let text = (case raw_text of PStr t \<Rightarrow> t | _ \<Rightarrow> py_str repr raw_text);
              upstream_id =
                py_or (py_or (dict_get record (ustr ''id'')) (dict_get record (ustr ''_id'')))
                  (dict_get record (ustr ''doc_id''));
              ident =
                (if upstream_id \<noteq> PNone then py_str repr upstream_id
                 else stable_id sha1_hexdigest [Some dataset_name, Some text])
          in Inr \<lparr>doc_id = ident, doc_text = text, doc_source = dataset_name,
                  doc_created = dict_get_default record (ustr ''created'') (PStr []),
                  doc_added = dict_get_default record (ustr ''added'') (PStr []),
                  doc_version = dict_get record (ustr ''version''),
                  doc_metadata = extra_metadata\<rparr>)"

section \<open>downloader.py: the processing pipeline\<close>

text \<open>\<open>_get_processing_cfg\<close>: \<open>(cfg or {}).get("processing") or {}\<close>.\<close>

definition get_processing_cfg :: "dict \<Rightarrow> pyval" where
  "get_processing_cfg cfg = py_or (dict_get cfg (ustr ''processing'')) (PDict [])"

text \<open>
  \<open>mask_spans\<close> as \<open>process_doc\<close> calls it, with whatever value the configuration holds
  for \<open>mask_token\<close>: \<open>"".join(out)\<close> raises \<open>TypeError\<close> at the first piece that is not a
  string, which is the token of the first merged span. The error is given by its
  string form.
\<close>

definition join_message :: "nat \<Rightarrow> pyval \<Rightarrow> pystr" where
  "join_message i v =
     ustr ''sequence item '' @ dec_digits i @ ustr '': expected str instance, ''
       @ type_name v @ ustr '' found''"

definition mask_spans_token :: "pystr \<Rightarrow> span list \<Rightarrow> pyval \<Rightarrow> pystr + pystr" where
  "mask_spans_token text spans mask_token =
     (case mask_token of
        PStr tok \<Rightarrow> Inr (mask_spans text spans tok)
      | _ \<Rightarrow>
          (case merge_spans spans of
             [] \<Rightarrow> Inr text
           | (s, e) # _ \<Rightarrow> Inl (join_message (if s > 0 then 1 else 0) mask_token)))"

text \<open>
  The \<open>try\<close> block of \<open>process_doc\<close>. The masker (its construction, cached by tagger
  name, and \<open>find_pii_spans\<close>) belongs to the external toolkit: \<open>find_pii_spans\<close> maps
  the tagger name and the document's id, text and source to the spans, or to the string
  form of the exception raised. The cache is a dictionary keyed by the tagger name, so a
  name that is a list or a dictionary raises \<open>TypeError\<close> there. The result is the
  document after the block, or the string form of the exception that left it. The
  statements that can raise all come before the first assignment to the document, so the
  handler sees the document as it entered. The messages of the two \<open>TypeError\<close>s are
  worded as CPython 3 words them.
\<close>

fun hashable :: "pyval \<Rightarrow> bool" where
  "hashable (PList _) = False"
| "hashable (PDict _) = False"
| "hashable _ = True"

definition unhashable_message :: "pyval \<Rightarrow> pystr" where
  "unhashable_message v = ustr ''unhashable type: '' @ [39] @ type_name v @ [39]"

definition pii_try ::
  "(pyval \<Rightarrow> pystr \<Rightarrow> pystr \<Rightarrow> pystr \<Rightarrow> pystr + span list) \<Rightarrow> dict \<Rightarrow> doc \<Rightarrow> pystr + doc" where
  "pii_try find_pii_spans dtcfg d =
     (let tagger_name = dict_get_default dtcfg (ustr ''pii_tagger'') (PStr (ustr ''pii_regex_v2'')) in
      case (if \<not> hashable tagger_name then Inl (unhashable_message tagger_name)
            else find_pii_spans tagger_name (doc_id d) (doc_text d) (doc_source d)) of
        Inl msg \<Rightarrow> Inl msg
      | Inr spans \<Rightarrow>
          if spans \<noteq> [] then
            (case mask_spans_token (doc_text d) spans
                    (dict_get_default dtcfg (ustr ''mask_token'') (PStr (ustr ''<PII>''))) of
               Inl msg \<Rightarrow> Inl msg
             | Inr text \<Rightarrow>
                 Inr (d\<lparr>doc_text := text,
                        doc_metadata :=
                          dict_set (dict_set (doc_metadata d) (ustr ''pii_masked'') (PBool True))
                            (ustr ''pii_span_count'') (PInt (int (length spans)))\<rparr>))
          else Inr d)"

definition pii_stage ::
  "(pyval \<Rightarrow> pystr \<Rightarrow> pystr \<Rightarrow> pystr \<Rightarrow> pystr + span list) \<Rightarrow> dict \<Rightarrow> doc \<Rightarrow> doc" where
  "pii_stage find_pii_spans dtcfg d =
     (case pii_try find_pii_spans dtcfg d of
        Inr d' \<Rightarrow> d'
      | Inl msg \<Rightarrow>
          d\<lparr>doc_metadata := dict_set (doc_metadata d) (ustr ''dolma_toolkit_error'') (PStr msg)\<rparr>)"

definition normalize_stage ::
  "(pystr \<Rightarrow> pystr \<Rightarrow> pyerr + pystr) \<Rightarrow> dict \<Rightarrow> doc \<Rightarrow> pyerr + doc" where
  "normalize_stage unicodedata_normalize ncfg d =
     (if truthy (dict_get_default ncfg (ustr ''enabled'') (PBool True)) then
        (case normalize_text unicodedata_normalize (Some (doc_text d))
                (dict_get_default ncfg (ustr ''unicode_form'') (PStr (ustr ''NFC'')))
                (dict_get_default ncfg (ustr ''collapse_whitespace'') (PBool True)) of
           Inl err \<Rightarrow> Inl err
         | Inr text \<Rightarrow> Inr (d\<lparr>doc_text := text\<rparr>))
      else Inr d)"

text \<open>
  \<open>ProcessingPipeline.process_doc\<close>. \<open>pcfg.get\<close> exists only when the processing
  block is a dictionary.
\<close>

definition process_doc ::
  "(pystr \<Rightarrow> pystr \<Rightarrow> pyerr + pystr) \<Rightarrow> (pyval \<Rightarrow> pystr \<Rightarrow> pystr \<Rightarrow> pystr \<Rightarrow> pystr + span list)
     \<Rightarrow> dict \<Rightarrow> doc \<Rightarrow> pyerr + doc" where
  "process_doc unicodedata_normalize find_pii_spans cfg d =
     (case get_processing_cfg cfg of
        PDict pcfg \<Rightarrow>
          if \<not> truthy (dict_get_default pcfg (ustr ''enabled'') (PBool False)) then Inr d
          else
            (case normalize_stage unicodedata_normalize (dict_block pcfg (ustr ''normalize'')) d of
               Inl err \<Rightarrow> Inl err
             | Inr d1 \<Rightarrow>
                 let dtcfg = dict_block pcfg (ustr ''dolma_toolkit'') in
                 if truthy (dict_get_default dtcfg (ustr ''enabled'') (PBool False))
                 then Inr (pii_stage find_pii_spans dtcfg d1)
                 else Inr d1)
      | _ \<Rightarrow> Inl AttributeError)"

section \<open>downloader.py: sharding a stream\<close>

text \<open>
  The functions of the standard library and of the external toolkit that the engine
  calls: \<open>repr\<close> of a list or dictionary, \<open>hashlib.sha1(...).hexdigest()\<close>,
  \<open>unicodedata.normalize\<close>, and the toolkit's masker.
\<close>

record externals =
  ext_repr :: "pyval \<Rightarrow> pystr"
  ext_sha1_hexdigest :: "nat list \<Rightarrow> pystr"
  ext_unicodedata_normalize :: "pystr \<Rightarrow> pystr \<Rightarrow> pyerr + pystr"
  ext_find_pii_spans :: "pyval \<Rightarrow> pystr \<Rightarrow> pystr \<Rightarrow> pystr \<Rightarrow> pystr + span list"

text \<open>
  The storage sinks are modelled by the writes they receive, in order: a local file
  written at a path, or an object put into a bucket under a key, each with the records of
  one shard. Serialisation to JSON lines is not modelled, and the sinks do not fail.
\<close>

datatype effect =
    LocalWrite pystr "doc list"
  | S3Put pyval pystr "doc list"

definition save_records :: "doc list \<Rightarrow> pyval \<Rightarrow> pystr \<Rightarrow> pyval \<Rightarrow> pystr \<Rightarrow> effect list" where
  "save_records records mode local_path bucket s3_key =
     (if mode = PStr (ustr ''local'') \<or> mode = PStr (ustr ''both'')
      then [LocalWrite local_path records] else [])
     @ (if mode = PStr (ustr ''s3'') \<or> mode = PStr (ustr ''both'')
        then [S3Put bucket s3_key records] else [])"

text \<open>\<open>os.path.join\<close> of \<open>posixpath\<close>; its first argument must be a string.\<close>

definition path_join_step :: "pystr \<Rightarrow> pystr \<Rightarrow> pystr" where
  "path_join_step path b =
     (if b \<noteq> [] \<and> hd b = 47 then b
      else if path = [] \<or> last path = 47 then path @ b
      else path @ [47] @ b)"

definition os_path_join :: "pyval \<Rightarrow> pystr list \<Rightarrow> pyerr + pystr" where
  "os_path_join a p = (case a of PStr path \<Rightarrow> Inr (foldl path_join_step path p) | _ \<Rightarrow> Inl TypeError)"

text \<open>\<open>f"part-{shard_id:05d}.jsonl"\<close>\<close>

definition shard_name :: "nat \<Rightarrow> pystr" where
  "shard_name shard_id =
     ustr ''part-'' @ replicate (5 - length (dec_digits shard_id)) 48 @ dec_digits shard_id
       @ ustr ''.jsonl''"

definition bind_err :: "'e + 'a \<Rightarrow> ('a \<Rightarrow> 'e + 'b) \<Rightarrow> 'e + 'b" where
  "bind_err r f = (case r of Inl err \<Rightarrow> Inl err | Inr v \<Rightarrow> f v)"

text \<open>
  One call of \<open>save_records\<close> from \<open>process_stream\<close>: the arguments are read from the
  configuration in the order written, and a missing key raises before anything is
  written.
\<close>

definition save_shard ::
  "(pyval \<Rightarrow> pystr) \<Rightarrow> dict \<Rightarrow> pystr \<Rightarrow> pystr \<Rightarrow> nat \<Rightarrow> doc list \<Rightarrow> pyerr + effect list" where
  "save_shard repr cfg local_subdir s3_subdir shard_id records =
     (let shard = shard_name shard_id in
      bind_err (bind_err (dict_item cfg (ustr ''storage'')) (\<lambda>st. subscript st (ustr ''mode''))) (\<lambda>mode.
      bind_err (bind_err (dict_item cfg (ustr ''storage'')) (\<lambda>st. subscript st (ustr ''local_dir''))) (\<lambda>local_dir.
      bind_err (os_path_join local_dir [local_subdir, shard]) (\<lambda>local_path.
      bind_err (bind_err (dict_item cfg (ustr ''aws'')) (\<lambda>aws. subscript aws (ustr ''s3_bucket''))) (\<lambda>bucket.
      bind_err (bind_err (dict_item cfg (ustr ''aws'')) (\<lambda>aws. subscript aws (ustr ''s3_prefix''))) (\<lambda>prefix.
      Inr (save_records records mode local_path bucket
             (py_str repr prefix @ [47] @ s3_subdir @ [47] @ shard))))))))"

text \<open>
  The metadata that \<open>process_stream\<close> computes once per call: global, then dataset, then
  the run metadata under the key \<open>run\<close>.
\<close>

definition combine_metadata :: "dict \<Rightarrow> dict \<Rightarrow> dict \<Rightarrow> dict" where
  "combine_metadata global_md dataset_md run_md =
     (let extra_md = dict_merge global_md dataset_md in
      if run_md \<noteq> [] then
        (case dict_get extra_md (ustr ''run'') of
           PDict existing_run \<Rightarrow> dict_set extra_md (ustr ''run'') (PDict (dict_merge existing_run run_md))
         | _ \<Rightarrow> dict_set extra_md (ustr ''run'') (PDict run_md))
      else extra_md)"

text \<open>
  The state of the loop. \<open>_build_doc\<close> stores \<open>extra_metadata or {}\<close> in every document:
  when the combined metadata is not empty, all documents of the call hold the same
  dictionary object, and \<open>process_doc\<close> writes its keys into that object. \<open>st_extra_md\<close>
  is the current content of this one object; a document in the buffer shows it when
  the shard is written. When the combined metadata is empty every document has a
  dictionary of its own.
\<close>

record stream_state =
  st_buffer :: "doc list"
  st_shard_id :: nat
  st_total :: nat
  st_extra_md :: dict
  st_effects :: "effect list"

definition published :: "dict \<Rightarrow> doc list \<Rightarrow> doc list" where
  "published extra_md buffer =
     (if extra_md = [] then buffer else map (\<lambda>d. d\<lparr>doc_metadata := extra_md\<rparr>) buffer)"

text \<open>
  The first two statements of the loop body: build the document and run it through the
  pipeline. The result is the document and the content of the metadata object after it.
\<close>

definition produce :: "externals \<Rightarrow> pystr \<Rightarrow> dict \<Rightarrow> dict \<Rightarrow> dict \<Rightarrow> dict \<Rightarrow> pyerr + doc \<times> dict" where
  "produce ext dataset_name cfg dcfg extra_md r =
     bind_err (build_doc (ext_repr ext) (ext_sha1_hexdigest ext) dataset_name r dcfg extra_md) (\<lambda>d0.
     bind_err (process_doc (ext_unicodedata_normalize ext) (ext_find_pii_spans ext) cfg d0) (\<lambda>d.
       Inr (d, if extra_md = [] then [] else doc_metadata d)))"

definition stream_step ::
  "externals \<Rightarrow> pystr \<Rightarrow> int \<Rightarrow> dict \<Rightarrow> dict \<Rightarrow> pystr \<Rightarrow> pystr \<Rightarrow> stream_state \<Rightarrow> dict
     \<Rightarrow> pyerr + stream_state" where
  "stream_step ext dataset_name shard_size cfg dcfg local_subdir s3_subdir st r =
     bind_err (produce ext dataset_name cfg dcfg (st_extra_md st) r) (\<lambda>(d, extra_md).
       let buffer = st_buffer st @ [d];
           total = st_total st + 1
       in if int (length buffer) \<ge> shard_size then
            bind_err (save_shard (ext_repr ext) cfg local_subdir s3_subdir (st_shard_id st)
                        (published extra_md buffer)) (\<lambda>written.
              Inr \<lparr>st_buffer = [], st_shard_id = st_shard_id st + 1, st_total = total,
                    st_extra_md = extra_md, st_effects = st_effects st @ written\<rparr>)
          else Inr \<lparr>st_buffer = buffer, st_shard_id = st_shard_id st, st_total = total,
                     st_extra_md = extra_md, st_effects = st_effects st\<rparr>)"

fun stream_loop ::
  "(stream_state \<Rightarrow> dict \<Rightarrow> pyerr + stream_state) \<Rightarrow> stream_state \<Rightarrow> dict list
     \<Rightarrow> effect list \<times> (pyerr + stream_state)" where
  "stream_loop step st [] = (st_effects st, Inr st)"
| "stream_loop step st (r # rs) =
     (case step st r of
        Inl err \<Rightarrow> (st_effects st, Inl err)
      | Inr st' \<Rightarrow> stream_loop step st' rs)"

text \<open>
  \<open>process_stream\<close>: the writes made, and the exception raised or the pair returned.
\<close>

definition process_stream ::
  "externals \<Rightarrow> pystr \<Rightarrow> dict list \<Rightarrow> int \<Rightarrow> dict \<Rightarrow> dict \<Rightarrow> dict \<Rightarrow> pystr \<Rightarrow> pystr
     \<Rightarrow> effect list \<times> (pyerr + nat \<times> nat)" where
  "process_stream ext dataset_name ds_iter shard_size cfg dcfg run_md local_subdir s3_subdir =
     (case get_processing_cfg cfg of
        PDict pcfg \<Rightarrow>
          (let extra_md =
                 combine_metadata (dict_block pcfg (ustr ''metadata''))
                   (dict_block dcfg (ustr ''metadata'')) run_md
           in case stream_loop
                     (stream_step ext dataset_name shard_size cfg dcfg local_subdir s3_subdir)
                     \<lparr>st_buffer = [], st_shard_id = 0, st_total = 0, st_extra_md = extra_md,
                      st_effects = []\<rparr> ds_iter of
                (effects, Inl err) \<Rightarrow> (effects, Inl err)
              | (effects, Inr st) \<Rightarrow>
                  if st_buffer st \<noteq> [] then
                    (case save_shard (ext_repr ext) cfg local_subdir s3_subdir (st_shard_id st)
                            (published (st_extra_md st) (st_buffer st)) of
                       Inl err \<Rightarrow> (effects, Inl err)
                     | Inr written \<Rightarrow> (effects @ written, Inr (st_total st, st_shard_id st + 1)))
                  else (effects, Inr (st_total st, st_shard_id st + 1)))
      | _ \<Rightarrow> ([], Inl AttributeError))"

section \<open>Notions used in the statements and proofs\<close>

text \<open>
  What \<open>normalize_text\<close> does after the Unicode stage: strip NUL, then collapse and trim
  whitespace if asked.
\<close>

definition post_unicode :: "pyval \<Rightarrow> pystr \<Rightarrow> pystr" where
  "post_unicode collapse_whitespace t1 =
     (let t2 = filter (\<lambda>c. c \<noteq> 0) t1
      in if truthy collapse_whitespace then strip (ws_sub t2) else t2)"

text \<open>
  A text in which every whitespace character is a single space between two other
  characters: \<open>collapsed\<close> says that whitespace occurs only as isolated spaces,
  \<open>trimmed\<close> that the text neither starts nor ends with whitespace.
\<close>

fun collapsed :: "pystr \<Rightarrow> bool" where
  "collapsed [] = True"
| "collapsed [c] = (\<not> is_space c \<or> c = 32)"
| "collapsed (c # d # r) = ((\<not> is_space c \<or> (c = 32 \<and> \<not> is_space d)) \<and> collapsed (d # r))"

definition trimmed :: "pystr \<Rightarrow> bool" where
  "trimmed u \<longleftrightarrow> u = [] \<or> (\<not> is_space (hd u) \<and> \<not> is_space (last u))"

text \<open>
  The settings of \<open>unicode_form\<close> under which \<open>normalize_text\<close> applies no Unicode
  normalization: a false value (\<open>None\<close>, the empty string), or \<open>none\<close> in any case.
\<close>

definition skips_unicode :: "pyval \<Rightarrow> bool" where
  "skips_unicode unicode_form \<longleftrightarrow>
     \<not> truthy unicode_form \<or> (case unicode_form of PStr f \<Rightarrow> lower_is_none f | _ \<Rightarrow> False)"

text \<open>
  \<open>unicodedata.normalize\<close> on the texts over four characters: \<open>a\<close> (U+0061), NUL
  (U+0000), COMBINING ACUTE ACCENT (U+0301) and \<open>a\<close> with acute (U+00E1), whose canonical
  decomposition is \<open>a\<close> followed by the accent. NFD and NFKD decompose U+00E1; NFC and
  NFKC then compose every \<open>a\<close> that the accent follows directly. NUL is a starter, so an
  accent after NUL stays as it is. Any other form name is refused. The function is also
  the library's on ASCII text, which every form leaves unchanged; on texts with other
  characters it is not.
\<close>

fun decompose_acute :: "pystr \<Rightarrow> pystr" where
  "decompose_acute [] = []"
| "decompose_acute (c # r) = (if c = 225 then 97 # 769 # decompose_acute r else c # decompose_acute r)"

fun compose_acute :: "pystr \<Rightarrow> pystr" where
  "compose_acute [] = []"
| "compose_acute [c] = [c]"
| "compose_acute (c # d # r) =
     (if c = 97 \<and> d = 769 then 225 # compose_acute r else c # compose_acute (d # r))"

definition normalize_acute :: "pystr \<Rightarrow> pystr \<Rightarrow> pyerr + pystr" where
  "normalize_acute form text =
     (if form = ustr ''NFC'' \<or> form = ustr ''NFKC'' then Inr (compose_acute (decompose_acute text))
      else if form = ustr ''NFD'' \<or> form = ustr ''NFKD'' then Inr (decompose_acute text)
      else Inl (ValueError (ustr ''invalid normalization form'')))"

text \<open>
  The documents that the loop produces from a list of records, in order, and the content
  of the metadata object after the last of them; an exception ends the run.
\<close>

fun collect ::
  "(dict \<Rightarrow> dict \<Rightarrow> pyerr + doc \<times> dict) \<Rightarrow> dict \<Rightarrow> dict list \<Rightarrow> pyerr + doc list \<times> dict" where
  "collect one extra_md [] = Inr ([], extra_md)"
| "collect one extra_md (r # rs) =
     bind_err (one extra_md r) (\<lambda>(d, md1).
     bind_err (collect one md1 rs) (\<lambda>(ds, md2). Inr (d # ds, md2)))"

text \<open>
  The writes of shard number \<open>i\<close>, given the four settings that \<open>process_stream\<close> reads
  from the configuration.
\<close>

definition shard_writes ::
  "(pyval \<Rightarrow> pystr) \<Rightarrow> pyval \<Rightarrow> pystr \<Rightarrow> pyval \<Rightarrow> pyval \<Rightarrow> pystr \<Rightarrow> pystr \<Rightarrow> nat \<Rightarrow> doc list
     \<Rightarrow> effect list" where
  "shard_writes repr mode local_dir bucket prefix local_subdir s3_subdir i records =
     save_records records mode (foldl path_join_step local_dir [local_subdir, shard_name i]) bucket
       (py_str repr prefix @ [47] @ s3_subdir @ [47] @ shard_name i)"

text \<open>
  Sample inputs for evaluation: a configuration that stores locally and leaves the
  pipeline off, one that turns normalization and masking on with global metadata
  \<open>{a: 1}\<close>, and external functions: a tagger that flags the three characters \<open>SSN\<close> at
  the start of a text, and stand-ins for \<open>repr\<close> and the hash that return the empty
  string.
\<close>

definition storage_cfg :: dict where
  "storage_cfg =
     [(ustr ''storage'', PDict [(ustr ''mode'', PStr (ustr ''local'')),
                                (ustr ''local_dir'', PStr (ustr ''out''))]),
      (ustr ''aws'', PDict [(ustr ''s3_bucket'', PStr (ustr ''bucket'')),
                            (ustr ''s3_prefix'', PStr (ustr ''raw''))])]"

definition masking_cfg :: dict where
  "masking_cfg =
     storage_cfg @
     [(ustr ''processing'',
       PDict [(ustr ''enabled'', PBool True),
              (ustr ''metadata'', PDict [(ustr ''a'', PInt 1)]),
              (ustr ''dolma_toolkit'', PDict [(ustr ''enabled'', PBool True)])])]"

definition sample_ext :: externals where
  "sample_ext =
     \<lparr>ext_repr = (\<lambda>v. []),
      ext_sha1_hexdigest = (\<lambda>bytes. []),
      ext_unicodedata_normalize = normalize_acute,
      ext_find_pii_spans =
        (\<lambda>tagger_name ident text source. Inr (if take 3 text = ustr ''SSN'' then [(0, 3)] else []))\<rparr>"

text \<open>
  The configuration of the specification's metadata example: global metadata
  \<open>{a: 1, b: 1}\<close>, with the pipeline left off.
\<close>

definition metadata_cfg :: dict where
  "metadata_cfg =
     storage_cfg @
     [(ustr ''processing'',
       PDict [(ustr ''metadata'', PDict [(ustr ''a'', PInt 1), (ustr ''b'', PInt 1)])])]"

section \<open>Proofs: span merging and masking\<close>

lemma merge_step_invalid: "e \<le> s \<Longrightarrow> merge_step merged (s, e) = merged"
  by simp

lemma merge_step_absorb: "s < e \<Longrightarrow> merge_step merged (s, e) = absorb merged (s, e)"
  by auto

lemma foldl_merge_step_filter:
  "foldl merge_step merged xs = foldl absorb merged (filter (\<lambda>(s, e). \<not> e \<le> s) xs)"
proof (induction xs arbitrary: merged)
  case Nil
  show ?case by simp
next
  case (Cons x xs)
  obtain s e where x: "x = (s, e)" by (cases x)
  show ?case
  proof (cases "e \<le> s")
    case True
    then show ?thesis using Cons.IH [of merged] by (simp add: x)
  next
    case False
    then have "merge_step merged (s, e) = absorb merged (s, e)"
      by (intro merge_step_absorb) simp
    then show ?thesis using False Cons.IH [of "absorb merged (s, e)"] by (simp add: x)
  qed
qed

lemma merge_spans_eq_spec: "merge_spans spans = merge_spans_spec spans"
  unfolding merge_spans_def merge_spans_spec_def
  by (simp only: foldl_merge_step_filter filter_sort)

lemma separated_snoc:
  "separated (m @ [x]) \<longleftrightarrow> separated m \<and> fst x < snd x \<and> (\<forall>y\<in>set m. snd y < fst x)"
  by (auto simp: separated_def sorted_wrt_append split: prod.splits)

lemma separated_merge_step:
  assumes "separated merged"
  shows "separated (merge_step merged x)"
proof -
  obtain s e where x: "x = (s, e)" by (cases x)
  show ?thesis
  proof (cases merged rule: rev_cases)
    case Nil
    then show ?thesis by (simp add: x separated_def)
  next
    case (snoc ys l)
    with assms have ys: "separated ys" and l: "fst l < snd l" and b: "\<forall>y\<in>set ys. snd y < fst l"
      by (simp_all add: separated_snoc)
    show ?thesis
    proof (cases "e \<le> s")
      case True
      then show ?thesis using assms by (simp add: x)
    next
      case False
      show ?thesis
      proof (cases "s > snd l")
        case True
        have "separated ((ys @ [l]) @ [(s, e)])"
          unfolding separated_snoc [of "ys @ [l]"] using assms snoc False True l b by auto
        then show ?thesis using False True by (simp add: x snoc)
      next
        case F2: False
        have "separated (ys @ [(fst l, max (snd l) e)])"
          unfolding separated_snoc using ys l b by auto
        then show ?thesis using False F2 by (simp add: x snoc)
      qed
    qed
  qed
qed

lemma separated_foldl: "separated merged \<Longrightarrow> separated (foldl merge_step merged xs)"
  by (induction xs arbitrary: merged) (simp_all add: separated_merge_step)

lemma separated_merge_spans: "separated (merge_spans spans)"
  unfolding merge_spans_def by (rule separated_foldl) (simp add: separated_def)

lemma covered_append: "covered (m @ m') = covered m \<union> covered m'"
  by (auto simp: covered_def)

lemma covered_Nil: "covered [] = {}"
  by (simp add: covered_def)

lemma covered_Cons: "covered ((s, e) # m) = {s..<e} \<union> covered m"
  by (auto simp: covered_def)

lemma covered_merge_step:
  assumes "\<forall>m\<in>set merged. fst m \<le> fst x"
  shows "covered (merge_step merged x) = covered merged \<union> {fst x..<snd x}"
proof -
  obtain s e where x: "x = (s, e)" by (cases x)
  show ?thesis
  proof (cases merged rule: rev_cases)
    case Nil
    then show ?thesis by (auto simp: x covered_def)
  next
    case (snoc ys l)
    obtain a b where l: "l = (a, b)" by (cases l)
    from assms have "a \<le> s" by (simp add: snoc l x)
    then show ?thesis
      by (auto simp: x snoc l covered_append covered_Cons covered_Nil)
  qed
qed

lemma starts_merge_step:
  "fst ` set (merge_step merged x) \<subseteq> insert (fst x) (fst ` set merged)"
proof -
  obtain s e where x: "x = (s, e)" by (cases x)
  show ?thesis
  proof (cases merged rule: rev_cases)
    case Nil
    then show ?thesis by (auto simp: x)
  next
    case (snoc ys l)
    then show ?thesis by (auto simp: x)
  qed
qed

lemma covered_foldl:
  assumes "sorted (map fst xs)" and "\<forall>m\<in>set merged. \<forall>x\<in>set xs. fst m \<le> fst x"
  shows "covered (foldl merge_step merged xs) = covered merged \<union> covered xs"
  using assms
proof (induction xs arbitrary: merged)
  case Nil
  show ?case by (simp add: covered_Nil)
next
  case (Cons x xs)
  obtain s e where x: "x = (s, e)" by (cases x)
  have step: "covered (merge_step merged x) = covered merged \<union> {fst x..<snd x}"
    using Cons.prems(2) by (intro covered_merge_step) simp
  have "\<forall>m\<in>set (merge_step merged x). \<forall>y\<in>set xs. fst m \<le> fst y"
  proof (intro ballI)
    fix m y assume m: "m \<in> set (merge_step merged x)" and y: "y \<in> set xs"
    from m starts_merge_step [of merged x] have "fst m = fst x \<or> fst m \<in> fst ` set merged"
      by auto
    moreover have "fst x \<le> fst y" using Cons.prems(1) y by auto
    moreover have "\<forall>m'\<in>set merged. fst m' \<le> fst y" using Cons.prems(2) y by simp
    ultimately show "fst m \<le> fst y" by auto
  qed
  moreover have "sorted (map fst xs)" using Cons.prems(1) by simp
  ultimately have "covered (foldl merge_step (merge_step merged x) xs)
      = covered (merge_step merged x) \<union> covered xs"
    by (rule Cons.IH [rotated])
  then show ?case using step by (auto simp: x covered_Cons)
qed

lemma sorted_fst_sort: "sorted (map fst (sort (spans :: span list)))"
proof -
  have "sorted (sort spans)"
    by simp
  then have "sorted_wrt (\<lambda>x y. fst x \<le> fst y) (sort spans)"
    by (rule sorted_wrt_mono_rel [rotated]) (auto simp: less_eq_prod_def)
  then show ?thesis
    by (simp only: sorted_map)
qed

lemma sort_key_pair: "sort_key (\<lambda>x. (fst x, snd x)) (spans :: span list) = sort spans"
  by simp

lemma covered_set_cong: "set xs = set ys \<Longrightarrow> covered xs = covered ys"
  by (simp add: covered_def)

lemma covered_merge_spans: "covered (merge_spans spans) = covered spans"
proof -
  have "covered (merge_spans spans) = covered [] \<union> covered (sort_key (\<lambda>x. (fst x, snd x)) spans)"
    unfolding merge_spans_def sort_key_pair by (rule covered_foldl) (simp_all add: sorted_fst_sort)
  also have "\<dots> = covered spans"
    by (simp add: covered_Nil covered_set_cong [of "sort spans" spans])
  finally show ?thesis .
qed


lemma separated_distinct_pairs:
  assumes "separated m" and "x \<in> set m" and "y \<in> set m" and "x \<noteq> y"
  shows "snd x < fst y \<or> snd y < fst x"
proof -
  from assms(1) have sw: "sorted_wrt (\<lambda>x y. snd x < fst y) m"
    by (simp add: separated_def)
  from assms(2) obtain i where i: "i < length m" "m ! i = x"
    by (auto simp: in_set_conv_nth)
  from assms(3) obtain j where j: "j < length m" "m ! j = y"
    by (auto simp: in_set_conv_nth)
  from i j assms(4) have "i \<noteq> j" by auto
  then consider "i < j" | "j < i" by linarith
  then show ?thesis
  proof cases
    case 1
    with sw i j show ?thesis by (auto simp: sorted_wrt_iff_nth_less)
  next
    case 2
    with sw i j show ?thesis by (auto simp: sorted_wrt_iff_nth_less)
  qed
qed

lemma separated_nonempty: "separated m \<Longrightarrow> x \<in> set m \<Longrightarrow> fst x < snd x"
  by (auto simp: separated_def list_all_iff)

lemma separated_distinct: "separated m \<Longrightarrow> distinct m"
proof (induction m)
  case Nil
  show ?case by simp
next
  case (Cons a m)
  from Cons.prems have "separated m"
    by (simp add: separated_def)
  moreover have "a \<notin> set m"
  proof
    assume "a \<in> set m"
    with Cons.prems have "snd a < fst a" by (auto simp: separated_def)
    moreover from Cons.prems have "fst a < snd a" by (auto simp: separated_def)
    ultimately show False by simp
  qed
  ultimately show ?case using Cons.IH by simp
qed

lemma covered_iff: "p \<in> covered m \<longleftrightarrow> (\<exists>x\<in>set m. fst x \<le> p \<and> p < snd x)"
  by (force simp: covered_def)

lemma separated_end_uncovered:
  assumes "separated m" and "x \<in> set m"
  shows "snd x \<notin> covered m"
proof
  assume "snd x \<in> covered m"
  then obtain y where y: "y \<in> set m" "fst y \<le> snd x" "snd x < snd y"
    by (auto simp: covered_iff)
  then have "x \<noteq> y" by auto
  with assms y(1) have "snd x < fst y \<or> snd y < fst x"
    by (rule separated_distinct_pairs)
  moreover have "fst x < snd x" using assms by (rule separated_nonempty)
  ultimately show False using y by auto
qed

lemma separated_minimal:
  assumes sep: "separated m" and cov: "covered zs = covered m"
  shows "length m \<le> length zs"
proof -
  have "\<forall>x\<in>set m. \<exists>z\<in>set zs. fst z \<le> fst x \<and> fst x < snd z"
  proof
    fix x assume x: "x \<in> set m"
    with sep have "fst x < snd x" by (rule separated_nonempty)
    with x have "fst x \<in> covered m" by (auto simp: covered_iff)
    then show "\<exists>z\<in>set zs. fst z \<le> fst x \<and> fst x < snd z"
      by (simp add: cov [symmetric] covered_iff)
  qed
  then obtain g where g: "\<forall>x\<in>set m. g x \<in> set zs \<and> fst (g x) \<le> fst x \<and> fst x < snd (g x)"
    by metis
  have "inj_on g (set m)"
  proof (rule inj_onI)
    fix x y assume x: "x \<in> set m" and y: "y \<in> set m" and eq: "g x = g y"
    show "x = y"
    proof (rule ccontr)
      assume ne: "x \<noteq> y"
      with sep x y have "snd x < fst y \<or> snd y < fst x"
        by (rule separated_distinct_pairs)
      moreover have nx: "fst x < snd x" using sep x by (rule separated_nonempty)
      moreover have ny: "fst y < snd y" using sep y by (rule separated_nonempty)
      moreover have "fst (g x) \<le> fst x" "fst x < snd (g x)" using g x by auto
      moreover have "fst (g x) \<le> fst y" "fst y < snd (g x)" using g y eq by auto
      ultimately have "(fst (g x) \<le> snd x \<and> snd x < snd (g x)) \<or> (fst (g x) \<le> snd y \<and> snd y < snd (g x))"
        by auto
      moreover have "g x \<in> set zs" using g x by auto
      ultimately have "snd x \<in> covered zs \<or> snd y \<in> covered zs"
        by (auto simp: covered_iff)
      then show False
        using separated_end_uncovered [OF sep x] separated_end_uncovered [OF sep y]
        by (simp add: cov)
    qed
  qed
  moreover have "g ` set m \<subseteq> set zs" using g by auto
  ultimately have "card (set m) \<le> card (set zs)"
    by (intro card_inj_on_le) simp_all
  moreover have "card (set m) = length m"
    using sep by (intro distinct_card separated_distinct)
  moreover have "card (set zs) \<le> length zs"
    by (rule card_length)
  ultimately show ?thesis by simp
qed

lemma py_slice_forward:
  assumes "0 \<le> cur" and "cur < s"
  shows "py_slice text cur s = take (nat s - nat cur) (drop (nat cur) text)"
  using assms by (auto simp: py_slice_def slice_bound_def min_def Let_def)

lemma py_slice_from_forward:
  assumes "0 \<le> cur"
  shows "(if cur < int (length text) then [py_slice_from text cur] else []) = (if cur < int (length text) then [drop (nat cur) text] else [])"
  using assms by (auto simp: py_slice_from_def slice_bound_def min_def)

lemma mask_fold:
  assumes "0 \<le> cur" and "\<forall>x\<in>set m. 0 \<le> snd x"
    and "foldl (mask_step text tok) (out, cur) m = (out', cur')"
  shows "concat (if cur' < int (length text) then out' @ [py_slice_from text cur'] else out')
         = concat out @ masked text tok (nat cur) m"
  using assms
proof (induction m arbitrary: out cur)
  case Nil
  then show ?case by (auto simp: py_slice_from_def slice_bound_def min_def)
next
  case (Cons x m)
  obtain s e where x: "x = (s, e)" by (cases x)
  let ?out1 = "(if s > cur then out @ [py_slice text cur s] else out) @ [tok]"
  have e: "0 \<le> e" using Cons.prems(2) by (simp add: x)
  have "foldl (mask_step text tok) (?out1, e) m = (out', cur')"
    using Cons.prems(3) by (simp add: x)
  with e have "concat (if cur' < int (length text) then out' @ [py_slice_from text cur'] else out')
      = concat ?out1 @ masked text tok (nat e) m"
    using Cons.prems(2) by (intro Cons.IH) simp_all
  moreover have "concat ?out1 = concat out @ take (nat s - nat cur) (drop (nat cur) text) @ tok"
    using Cons.prems(1) by (simp add: py_slice_forward)
  ultimately show ?case by (simp add: x)
qed

lemma ends_merge_step:
  assumes "\<forall>m\<in>set merged. 0 \<le> snd m" and "fst x < snd x \<longrightarrow> 0 \<le> snd x"
  shows "\<forall>m\<in>set (merge_step merged x). 0 \<le> snd m"
proof -
  obtain s e where x: "x = (s, e)" by (cases x)
  show ?thesis
  proof (cases merged rule: rev_cases)
    case Nil
    then show ?thesis using assms by (auto simp: x)
  next
    case (snoc ys l)
    then show ?thesis using assms by (auto simp: x)
  qed
qed

lemma ends_foldl:
  assumes "\<forall>m\<in>set merged. 0 \<le> snd m" and "\<forall>x\<in>set xs. fst x < snd x \<longrightarrow> 0 \<le> snd x"
  shows "\<forall>m\<in>set (foldl merge_step merged xs). 0 \<le> snd m"
  using assms
proof (induction xs arbitrary: merged)
  case Nil
  then show ?case by simp
next
  case (Cons x xs)
  have "\<forall>m\<in>set (merge_step merged x). 0 \<le> snd m"
    using Cons.prems by (intro ends_merge_step) simp_all
  then show ?case using Cons.prems(2) Cons.IH [of "merge_step merged x"] by simp
qed

lemma ends_merge_spans:
  assumes "\<forall>x\<in>set spans. fst x < snd x \<longrightarrow> 0 \<le> snd x"
  shows "\<forall>m\<in>set (merge_spans spans). 0 \<le> snd m"
  unfolding merge_spans_def using assms by (intro ends_foldl) simp_all

lemma mask_spans_masked:
  assumes "\<forall>x\<in>set spans. fst x < snd x \<longrightarrow> 0 \<le> snd x"
  shows "mask_spans text spans tok = masked text tok 0 (merge_spans spans)"
proof (cases "merge_spans spans = []")
  case True
  then show ?thesis by (simp add: mask_spans_def)
next
  case False
  obtain out' cur' where f: "foldl (mask_step text tok) ([], 0) (merge_spans spans) = (out', cur')"
    by (cases "foldl (mask_step text tok) ([], 0) (merge_spans spans)")
  have "concat (if cur' < int (length text) then out' @ [py_slice_from text cur'] else out')
         = concat [] @ masked text tok (nat 0) (merge_spans spans)"
    using ends_merge_spans [OF assms] f by (intro mask_fold) simp_all
  then show ?thesis using False f by (simp add: mask_spans_def)
qed

lemma foldl_merge_step_invalid:
  "\<forall>x\<in>set xs. snd x \<le> fst x \<Longrightarrow> foldl merge_step merged xs = merged"
  by (induction xs arbitrary: merged) auto

lemma merge_spans_invalid: "\<forall>x\<in>set spans. snd x \<le> fst x \<Longrightarrow> merge_spans spans = []"
  unfolding merge_spans_def by (rule foldl_merge_step_invalid) simp

lemma mask_spans_invalid: "\<forall>x\<in>set spans. snd x \<le> fst x \<Longrightarrow> mask_spans text spans tok = text"
  by (simp add: mask_spans_def merge_spans_invalid)

lemma merge_example: "merge_spans [(0, 3), (2, 5), (10, 12)] = [(0, 5), (10, 12)]"
  by (simp add: merge_spans_def)

text \<open>
  Claim C1, as amended. \<open>_merge_spans\<close> computes what the specification describes
  (discard the spans with \<open>end \<le> start\<close>, sort by \<open>(start, end)\<close>, absorb every span that
  starts at or before the running span's end); its result is ordered, disjoint and
  non-adjacent, covers the same positions as the input, and no list of spans covering
  these positions is shorter. When every non-empty input span ends at a non-negative
  offset, \<open>mask_spans\<close> returns the text before each merged span, the mask token in place
  of the span, and the rest of the text after the last span; when no valid span remains
  it returns the text itself. The spans \<open>[(0,3), (2,5), (10,12)]\<close> merge to
  \<open>[(0,5), (10,12)]\<close>, and masking them keeps the characters \<open>[5,10)\<close> and those from
  index 12 on.
\<close>

theorem merge_and_mask_spans:
  "merge_spans spans = merge_spans_spec spans
   \<and> separated (merge_spans spans)
   \<and> covered (merge_spans spans) = covered spans
   \<and> (covered zs = covered spans \<longrightarrow> length (merge_spans spans) \<le> length zs)
   \<and> ((\<forall>(s, e) \<in> set spans. s < e \<longrightarrow> 0 \<le> e) \<longrightarrow>
        mask_spans text spans mask_token = masked text mask_token 0 (merge_spans spans))
   \<and> ((\<forall>(s, e) \<in> set spans. e \<le> s) \<longrightarrow> mask_spans text spans mask_token = text)
   \<and> merge_spans [(0, 3), (2, 5), (10, 12)] = [(0, 5), (10, 12)]
   \<and> mask_spans text [(0, 3), (2, 5), (10, 12)] mask_token
       = mask_token @ take 5 (drop 5 text) @ mask_token @ drop 12 text"
proof -
  have minimal: "covered zs = covered spans \<longrightarrow> length (merge_spans spans) \<le> length zs"
  proof
    assume "covered zs = covered spans"
    then have "covered zs = covered (merge_spans spans)"
      by (simp add: covered_merge_spans)
    with separated_merge_spans show "length (merge_spans spans) \<le> length zs"
      by (rule separated_minimal)
  qed
  have masks: "(\<forall>(s, e) \<in> set spans. s < e \<longrightarrow> 0 \<le> e) \<longrightarrow>
        mask_spans text spans mask_token = masked text mask_token 0 (merge_spans spans)"
  proof
    assume "\<forall>(s, e) \<in> set spans. s < e \<longrightarrow> 0 \<le> e"
    then have "\<forall>x\<in>set spans. fst x < snd x \<longrightarrow> 0 \<le> snd x"
      by auto
    then show "mask_spans text spans mask_token = masked text mask_token 0 (merge_spans spans)"
      by (rule mask_spans_masked)
  qed
  have unchanged: "(\<forall>(s, e) \<in> set spans. e \<le> s) \<longrightarrow> mask_spans text spans mask_token = text"
  proof
    assume "\<forall>(s, e) \<in> set spans. e \<le> s"
    then have "\<forall>x\<in>set spans. snd x \<le> fst x"
      by auto
    then show "mask_spans text spans mask_token = text"
      by (rule mask_spans_invalid)
  qed
  have "mask_spans text [(0, 3), (2, 5), (10, 12)] mask_token
      = masked text mask_token 0 (merge_spans [(0, 3), (2, 5), (10, 12)])"
    by (rule mask_spans_masked) simp
  then have example: "mask_spans text [(0, 3), (2, 5), (10, 12)] mask_token
      = mask_token @ take 5 (drop 5 text) @ mask_token @ drop 12 text"
    by (simp add: merge_example)
  show ?thesis
    using merge_spans_eq_spec [of spans] separated_merge_spans [of spans]
      covered_merge_spans [of spans] minimal masks unchanged merge_example example
    by blast
qed

theorem merge_and_mask_spans_witness:
  "length (merge_spans [(1, 3), (2, 5)]) \<le> length [(1, 5) :: span]
   \<and> mask_spans (ustr ''abcdefg'') [(1, 3), (2, 5)] (ustr ''<PII>'') = ustr ''a<PII>fg''
   \<and> mask_spans (ustr ''abcdefg'') [(4, 4), (3, 1)] (ustr ''<PII>'') = ustr ''abcdefg''"
proof -
  have m: "merge_spans [(1, 3), (2, 5)] = [(1, 5)]"
    by (simp add: merge_spans_def)
  have c: "covered [(1, 5)] = covered [(1, 3), (2, 5)]"
    by (auto simp: covered_def)
  have v: "\<forall>(s, e) \<in> set [(1, 3), (2, 5)]. s < e \<longrightarrow> (0::int) \<le> e"
    by simp
  have i: "\<forall>(s, e) \<in> set [(4, 4), (3, 1)]. e \<le> (s::int)"
    by simp
  from merge_and_mask_spans [of "[(1, 3), (2, 5)]" "[(1, 5)]" "ustr ''abcdefg''" "ustr ''<PII>''"] c v
  have "length (merge_spans [(1, 3), (2, 5)]) \<le> length [(1, 5) :: span]"
    and "mask_spans (ustr ''abcdefg'') [(1, 3), (2, 5)] (ustr ''<PII>'')
         = masked (ustr ''abcdefg'') (ustr ''<PII>'') 0 (merge_spans [(1, 3), (2, 5)])"
    by blast+
  moreover from merge_and_mask_spans [of "[(4, 4), (3, 1)]" "[]" "ustr ''abcdefg''" "ustr ''<PII>''"] i
  have "mask_spans (ustr ''abcdefg'') [(4, 4), (3, 1)] (ustr ''<PII>'') = ustr ''abcdefg''"
    by blast
  ultimately show ?thesis
    by (simp add: m ustr_def)
qed

text \<open>
  Claim C1 as stated, for every collection of integer spans, fails for a span that ends
  at a negative offset: the cursor becomes negative, and Python reads the next slice from
  the end of the text. The span \<open>(-3, -1)\<close> covers no position of \<open>abcdef\<close>, yet only
  the last character survives.
\<close>

theorem mask_spans_negative_counterexample:
  "merge_spans [(- 3, - 1)] = [(- 3, - 1)]
   \<and> covered (merge_spans [(- 3, - 1)]) \<inter> {0..<6} = {}
   \<and> mask_spans (ustr ''abcdef'') [(- 3, - 1)] (ustr ''<PII>'') = ustr ''<PII>f''
   \<and> masked (ustr ''abcdef'') (ustr ''<PII>'') 0 (merge_spans [(- 3, - 1)]) = ustr ''<PII>abcdef''"
  by (simp add: merge_spans_def mask_spans_def covered_def py_slice_def py_slice_from_def
      slice_bound_def ustr_def)

section \<open>Proofs: normalization\<close>

lemma ws_sub_head: "t = [] \<or> \<not> is_space (hd t) \<Longrightarrow> ws_sub t = [] \<or> \<not> is_space (hd (ws_sub t))"
  by (cases t) auto

lemma dropWhile_head: "dropWhile P t = [] \<or> \<not> P (hd (dropWhile P t))"
  using hd_dropWhile [of P t] by blast

lemma collapsed_Cons:
  "collapsed (c # t) \<longleftrightarrow> (\<not> is_space c \<or> (c = 32 \<and> (t = [] \<or> \<not> is_space (hd t)))) \<and> collapsed t"
  by (cases t) auto

lemma collapsed_ws_sub: "collapsed (ws_sub t)"
proof (induction t rule: ws_sub.induct)
  case 1
  show ?case by simp
next
  case (2 c cs)
  show ?case
  proof (cases "is_space c")
    case True
    have "ws_sub (dropWhile is_space cs) = [] \<or> \<not> is_space (hd (ws_sub (dropWhile is_space cs)))"
      by (rule ws_sub_head) (rule dropWhile_head)
    then show ?thesis using True 2 by (simp add: collapsed_Cons)
  next
    case False
    then show ?thesis using 2 by (simp add: collapsed_Cons)
  qed
qed

lemma ws_sub_collapsed: "collapsed t \<Longrightarrow> ws_sub t = t"
proof (induction t rule: ws_sub.induct)
  case 1
  show ?case by simp
next
  case (2 c cs)
  from "2.prems" have cs: "collapsed cs" by (simp add: collapsed_Cons)
  show ?case
  proof (cases "is_space c")
    case True
    with "2.prems" have c: "c = 32" and h: "cs = [] \<or> \<not> is_space (hd cs)"
      by (simp_all add: collapsed_Cons)
    from h have d: "dropWhile is_space cs = cs" by (cases cs) auto
    from "2.IH"(1) [OF True] cs d have "ws_sub cs = cs" by simp
    then show ?thesis using True c d by simp
  next
    case False
    with "2.IH"(2) cs show ?thesis by simp
  qed
qed

lemma collapsed_dropWhile: "collapsed t \<Longrightarrow> collapsed (dropWhile is_space t)"
  by (induction t) (auto simp: collapsed_Cons)

lemma collapsed_snoc:
  "collapsed (t @ [c]) \<longleftrightarrow>
     collapsed t \<and> (\<not> is_space c \<or> (c = 32 \<and> (t = [] \<or> \<not> is_space (last t))))"
proof (induction t)
  case Nil
  show ?case by simp
next
  case (Cons a t)
  show ?case
  proof (cases t)
    case Nil
    then show ?thesis by auto
  next
    case (Cons b r)
    then show ?thesis using Cons.IH by (auto simp: collapsed_Cons)
  qed
qed

lemma collapsed_rev: "collapsed t \<Longrightarrow> collapsed (rev t)"
proof (induction t)
  case Nil
  show ?case by simp
next
  case (Cons c t)
  from Cons.prems have "collapsed t" by (simp add: collapsed_Cons)
  then have "collapsed (rev t)" by (rule Cons.IH)
  moreover from Cons.prems have "\<not> is_space c \<or> (c = 32 \<and> (t = [] \<or> \<not> is_space (hd t)))"
    by (simp add: collapsed_Cons)
  ultimately show ?case by (auto simp: collapsed_snoc last_rev)
qed

lemma collapsed_strip: "collapsed t \<Longrightarrow> collapsed (strip t)"
  unfolding strip_def by (intro collapsed_rev collapsed_dropWhile)

lemma last_dropWhile_nonempty: "dropWhile P t \<noteq> [] \<Longrightarrow> last (dropWhile P t) = last t"
proof -
  assume ne: "dropWhile P t \<noteq> []"
  have "last t = last (takeWhile P t @ dropWhile P t)" by simp
  also have "\<dots> = last (dropWhile P t)" using ne by (simp only: last_append if_False)
  finally show ?thesis by simp
qed

lemma trimmed_strip: "trimmed (strip t)"
proof (cases "strip t = []")
  case True
  then show ?thesis by (simp add: trimmed_def)
next
  case False
  let ?a = "dropWhile is_space t"
  let ?b = "dropWhile is_space (rev ?a)"
  from False have b: "?b \<noteq> []" by (simp add: strip_def)
  have a: "?a \<noteq> []"
  proof
    assume e: "?a = []"
    have "?b = []" unfolding e by simp
    with b show False by blast
  qed
  have "\<not> is_space (hd ?b)" using b dropWhile_head [of is_space "rev ?a"] by blast
  then have l: "\<not> is_space (last (strip t))" using b by (simp add: strip_def last_rev)
  have "last ?b = last (rev ?a)" using b by (rule last_dropWhile_nonempty)
  also have "\<dots> = hd ?a" using a by (simp add: last_rev)
  finally have "hd (strip t) = hd ?a" using b by (simp add: strip_def hd_rev)
  moreover have "\<not> is_space (hd ?a)" using a dropWhile_head [of is_space t] by blast
  ultimately show ?thesis using l by (simp add: trimmed_def)
qed

lemma strip_trimmed: "trimmed u \<Longrightarrow> strip u = u"
proof (cases "u = []")
  case True
  then show ?thesis by (simp add: strip_def)
next
  case False
  assume "trimmed u"
  with False have h: "\<not> is_space (hd u)" and l: "\<not> is_space (last u)"
    by (simp_all add: trimmed_def)
  from h False have "dropWhile is_space u = u" by (cases u) auto
  moreover from l False have "dropWhile is_space (rev u) = rev u"
    by (cases "rev u") (auto simp: last_rev hd_rev [symmetric])
  ultimately show ?thesis by (simp add: strip_def)
qed

lemma set_ws_sub: "set (ws_sub t) \<subseteq> insert 32 (set t)"
proof (induction t rule: ws_sub.induct)
  case 1
  show ?case by simp
next
  case (2 c cs)
  show ?case
  proof (cases "is_space c")
    case True
    with "2.IH"(1) have "set (ws_sub (dropWhile is_space cs)) \<subseteq> insert 32 (set (dropWhile is_space cs))"
      by simp
    moreover have "set (dropWhile is_space cs) \<subseteq> set cs"
      by (auto dest: set_dropWhileD)
    ultimately show ?thesis using True by auto
  next
    case False
    with "2.IH"(2) show ?thesis by auto
  qed
qed

lemma set_strip: "set (strip t) \<subseteq> set t"
  unfolding strip_def by (auto dest!: set_dropWhileD)

lemma post_unicode_no_nul: "0 \<notin> set (post_unicode c t)"
proof -
  have "set (strip (ws_sub (filter (\<lambda>c. c \<noteq> 0) t))) \<subseteq> insert 32 (set (filter (\<lambda>c. c \<noteq> 0) t))"
    using set_strip [of "ws_sub (filter (\<lambda>c. c \<noteq> 0) t)"] set_ws_sub [of "filter (\<lambda>c. c \<noteq> 0) t"]
    by blast
  then show ?thesis by (auto simp: post_unicode_def Let_def)
qed

lemma post_unicode_idem: "post_unicode c (post_unicode c t) = post_unicode c t"
proof -
  have nn: "filter (\<lambda>c. c \<noteq> 0) (post_unicode c t) = post_unicode c t"
    using post_unicode_no_nul [of c t] by (intro filter_True) (metis)
  show ?thesis
  proof (cases "truthy c")
    case True
    let ?u = "strip (ws_sub (filter (\<lambda>c. c \<noteq> 0) t))"
    have u: "post_unicode c t = ?u" using True by (simp add: post_unicode_def)
    have "collapsed ?u" by (intro collapsed_strip collapsed_ws_sub)
    then have "ws_sub ?u = ?u" by (rule ws_sub_collapsed)
    moreover have "strip ?u = ?u" by (intro strip_trimmed trimmed_strip)
    ultimately have "strip (ws_sub ?u) = ?u" by simp
    moreover have "post_unicode c ?u = strip (ws_sub (filter (\<lambda>c. c \<noteq> 0) ?u))"
      using True by (simp add: post_unicode_def)
    ultimately show ?thesis using nn u by simp
  next
    case False
    then show ?thesis by (simp add: post_unicode_def)
  qed
qed

lemma normalize_text_post_unicode:
  "normalize_text nf (Some t) form c =
     (case unicode_stage nf t form of Inl err \<Rightarrow> Inl err | Inr t1 \<Rightarrow> Inr (post_unicode c t1))"
  by (simp add: normalize_text_def post_unicode_def Let_def split: sum.splits)


lemma unicode_stage_skips: "skips_unicode form \<Longrightarrow> unicode_stage nf t form = Inr t"
  by (cases form) (auto simp: skips_unicode_def unicode_stage_def)

text \<open>
  Claim C7, as amended. When \<open>unicode_form\<close> asks for no Unicode normalization (a false
  value, or \<open>none\<close> in any case), \<open>normalize_text\<close> returns a text and is idempotent on
  every text, with whitespace collapsing on or off. With a Unicode normalization form,
  a second pass returns the result of the first whenever that result is itself left
  unchanged by the Unicode stage.
\<close>

theorem normalize_text_idempotent:
  "(skips_unicode form \<longrightarrow>
      (\<exists>u. normalize_text nf (Some t) form c = Inr u \<and> normalize_text nf (Some u) form c = Inr u))
   \<and> (normalize_text nf (Some t) form c = Inr u \<and> unicode_stage nf u form = Inr u \<longrightarrow>
        normalize_text nf (Some u) form c = Inr u)"
proof (intro conjI impI)
  assume "skips_unicode form"
  then have "\<And>x. normalize_text nf (Some x) form c = Inr (post_unicode c x)"
    by (simp add: normalize_text_post_unicode unicode_stage_skips)
  then have "normalize_text nf (Some t) form c = Inr (post_unicode c t)
      \<and> normalize_text nf (Some (post_unicode c t)) form c = Inr (post_unicode c t)"
    by (simp add: post_unicode_idem)
  then show "\<exists>u. normalize_text nf (Some t) form c = Inr u \<and> normalize_text nf (Some u) form c = Inr u"
    by blast
next
  assume a: "normalize_text nf (Some t) form c = Inr u \<and> unicode_stage nf u form = Inr u"
  then obtain t1 where t1: "unicode_stage nf t form = Inr t1" and u: "u = post_unicode c t1"
    by (auto simp: normalize_text_post_unicode split: sum.splits)
  from a have "normalize_text nf (Some u) form c = Inr (post_unicode c u)"
    by (simp add: normalize_text_post_unicode)
  then show "normalize_text nf (Some u) form c = Inr u"
    by (simp add: u post_unicode_idem)
qed

theorem normalize_text_idempotent_witness:
  "normalize_text normalize_acute (Some (ustr ''  a    a ''))  (PStr (ustr ''None'')) (PBool True)
     = Inr (ustr ''a a'')
   \<and> normalize_text normalize_acute (Some (ustr ''a a'')) (PStr (ustr ''None'')) (PBool True)
     = Inr (ustr ''a a'')
   \<and> normalize_text normalize_acute (Some [97, 769, 32, 32, 225]) (PStr (ustr ''NFC'')) (PBool True)
     = Inr [225, 32, 225]
   \<and> normalize_text normalize_acute (Some [225, 32, 225]) (PStr (ustr ''NFC'')) (PBool True)
     = Inr [225, 32, 225]"
proof -
  have s: "skips_unicode (PStr (ustr ''None''))"
    by (simp add: skips_unicode_def lower_is_none_def ascii_lower_def ustr_def)
  have n1: "normalize_text normalize_acute (Some (ustr ''  a    a '')) (PStr (ustr ''None'')) (PBool True)
      = Inr (ustr ''a a'')"
    by (simp add: normalize_text_def unicode_stage_def lower_is_none_def ascii_lower_def ustr_def
        strip_def is_space_def)
  from normalize_text_idempotent [of "PStr (ustr ''None'')" normalize_acute "ustr ''  a    a ''" "PBool True"] s
  obtain u where "normalize_text normalize_acute (Some (ustr ''  a    a '')) (PStr (ustr ''None'')) (PBool True) = Inr u"
    and "normalize_text normalize_acute (Some u) (PStr (ustr ''None'')) (PBool True) = Inr u"
    by blast
  with n1 have n2: "normalize_text normalize_acute (Some (ustr ''a a'')) (PStr (ustr ''None'')) (PBool True)
      = Inr (ustr ''a a'')"
    by simp
  have n3: "normalize_text normalize_acute (Some [97, 769, 32, 32, 225]) (PStr (ustr ''NFC'')) (PBool True)
      = Inr [225, 32, 225]"
    by (simp add: normalize_text_def unicode_stage_def lower_is_none_def ascii_lower_def ustr_def
        strip_def is_space_def normalize_acute_def)
  have f: "unicode_stage normalize_acute [225, 32, 225] (PStr (ustr ''NFC'')) = Inr [225, 32, 225]"
    by (simp add: unicode_stage_def lower_is_none_def ascii_lower_def ustr_def normalize_acute_def)
  from normalize_text_idempotent [of "PStr (ustr ''NFC'')" normalize_acute "[97, 769, 32, 32, 225]"
      "PBool True" "[225, 32, 225]"] n3 f
  have n4: "normalize_text normalize_acute (Some [225, 32, 225]) (PStr (ustr ''NFC'')) (PBool True)
      = Inr [225, 32, 225]"
    by blast
  from n1 n2 n3 n4 show ?thesis by blast
qed

text \<open>
  Claim C7 as stated, for every text and every \<open>unicode_form\<close>, fails under NFC: the
  text \<open>a\<close>, NUL, COMBINING ACUTE ACCENT is in NFC, because NUL separates the letter and
  the accent. \<open>normalize_text\<close> strips the NUL after normalizing, and a second pass
  composes the two characters that are now adjacent.
\<close>

theorem normalize_text_not_idempotent_counterexample:
  "normalize_text normalize_acute (Some [97, 0, 769]) (PStr (ustr ''NFC'')) (PBool True) = Inr [97, 769]
   \<and> normalize_text normalize_acute (Some [97, 769]) (PStr (ustr ''NFC'')) (PBool True) = Inr [225]"
  by (simp add: normalize_text_def unicode_stage_def lower_is_none_def ascii_lower_def ustr_def
      strip_def is_space_def normalize_acute_def)

section \<open>Proofs: limits\<close>




lemma dict_item_Some: "map_of d k = Some v \<Longrightarrow> dict_item d k = Inr v"
  by (simp add: dict_item_def)



section \<open>Proofs: building a document\<close>


lemma build_doc_string_field:
  assumes "dict_get_default dcfg (ustr ''text_field'') (PStr (ustr ''text'')) = PStr f"
  shows "build_doc repr sha1 dataset_name record dcfg extra_metadata =
     (let raw_text = dict_get_default record f (PStr []);
          text = (case raw_text of PStr t \<Rightarrow> t | _ \<Rightarrow> py_str repr raw_text);
          upstream_id =
            py_or (py_or (dict_get record (ustr ''id'')) (dict_get record (ustr ''_id'')))
              (dict_get record (ustr ''doc_id''))
      in Inr \<lparr>doc_id = (if upstream_id \<noteq> PNone then py_str repr upstream_id
                         else stable_id sha1 [Some dataset_name, Some text]),
              doc_text = text, doc_source = dataset_name,
              doc_created = dict_get_default record (ustr ''created'') (PStr []),
              doc_added = dict_get_default record (ustr ''added'') (PStr []),
              doc_version = dict_get record (ustr ''version''),
              doc_metadata = extra_metadata\<rparr>)"
  using assms by (simp add: build_doc_def Let_def)

text \<open>
  Claim C10. When the configured text field (by default \<open>text\<close>) is present in the
  upstream record and bound to \<open>None\<close>, \<open>_build_doc\<close> returns a document whose text is
  the four characters \<open>None\<close>; the text is empty when the field is absent.
\<close>

theorem build_doc_null_text:
  "dict_get_default dcfg (ustr ''text_field'') (PStr (ustr ''text'')) = PStr f \<longrightarrow>
     (map_of record f = Some PNone \<longrightarrow>
        (\<exists>d. build_doc repr sha1 dataset_name record dcfg extra_metadata = Inr d
             \<and> doc_text d = ustr ''None''))
     \<and> (map_of record f = None \<longrightarrow>
        (\<exists>d. build_doc repr sha1 dataset_name record dcfg extra_metadata = Inr d
             \<and> doc_text d = []))"
  by (simp add: build_doc_string_field Let_def dict_get_default_def)

theorem build_doc_null_text_witness:
  "(\<exists>d. build_doc (\<lambda>v. []) (\<lambda>b. []) (ustr ''ds'') [(ustr ''body'', PNone)]
          [(ustr ''text_field'', PStr (ustr ''body''))] [] = Inr d
        \<and> doc_text d = ustr ''None'')
   \<and> (\<exists>d. build_doc (\<lambda>v. []) (\<lambda>b. []) (ustr ''ds'') [(ustr ''id'', PInt 7)]
          [(ustr ''text_field'', PStr (ustr ''body''))] [] = Inr d
        \<and> doc_text d = [])"
proof -
  have f: "dict_get_default [(ustr ''text_field'', PStr (ustr ''body''))] (ustr ''text_field'')
        (PStr (ustr ''text'')) = PStr (ustr ''body'')"
    by (simp add: dict_get_default_def)
  have p: "map_of [(ustr ''body'', PNone)] (ustr ''body'') = Some PNone"
    by simp
  have a: "map_of [(ustr ''id'', PInt 7)] (ustr ''body'') = None"
    by (simp add: ustr_def)
  from build_doc_null_text [of "[(ustr ''text_field'', PStr (ustr ''body''))]" "ustr ''body''"
      "[(ustr ''body'', PNone)]" "\<lambda>v. []" "\<lambda>b. []" "ustr ''ds''" "[]"] f p
  have 1: "\<exists>d. build_doc (\<lambda>v. []) (\<lambda>b. []) (ustr ''ds'') [(ustr ''body'', PNone)]
          [(ustr ''text_field'', PStr (ustr ''body''))] [] = Inr d
        \<and> doc_text d = ustr ''None''"
    by blast
  from build_doc_null_text [of "[(ustr ''text_field'', PStr (ustr ''body''))]" "ustr ''body''"
      "[(ustr ''id'', PInt 7)]" "\<lambda>v. []" "\<lambda>b. []" "ustr ''ds''" "[]"] f a
  have 2: "\<exists>d. build_doc (\<lambda>v. []) (\<lambda>b. []) (ustr ''ds'') [(ustr ''id'', PInt 7)]
          [(ustr ''text_field'', PStr (ustr ''body''))] [] = Inr d
        \<and> doc_text d = []"
    by blast
  from 1 2 show ?thesis by blast
qed





section \<open>Proofs: the processing pipeline\<close>

lemma map_of_dict_set: "map_of (dict_set d k v) = (map_of d)(k \<mapsto> v)"
  by (induction d k v rule: dict_set.induct) (auto simp: fun_eq_iff)

lemma dict_get_dict_set: "dict_get (dict_set d k v) k' = (if k' = k then v else dict_get d k')"
  by (simp add: dict_get_def dict_get_default_def map_of_dict_set)

lemma process_doc_enabled:
  assumes "get_processing_cfg cfg = PDict pcfg"
    and "truthy (dict_get_default pcfg (ustr ''enabled'') (PBool False))"
    and "normalize_stage nf (dict_block pcfg (ustr ''normalize'')) d = Inr d1"
    and "truthy (dict_get_default (dict_block pcfg (ustr ''dolma_toolkit'')) (ustr ''enabled'') (PBool False))"
  shows "process_doc nf find_pii_spans cfg d = Inr (pii_stage find_pii_spans (dict_block pcfg (ustr ''dolma_toolkit'')) d1)"
  using assms by (simp add: process_doc_def Let_def)

lemma pii_try_tagger_raises:
  assumes "hashable (dict_get_default dtcfg (ustr ''pii_tagger'') (PStr (ustr ''pii_regex_v2'')))"
    and "find_pii_spans (dict_get_default dtcfg (ustr ''pii_tagger'') (PStr (ustr ''pii_regex_v2'')))
           (doc_id d) (doc_text d) (doc_source d) = Inl msg"
  shows "pii_try find_pii_spans dtcfg d = Inl msg"
  using assms by (simp add: pii_try_def Let_def)

lemma pii_try_join_raises:
  assumes "hashable (dict_get_default dtcfg (ustr ''pii_tagger'') (PStr (ustr ''pii_regex_v2'')))"
    and "find_pii_spans (dict_get_default dtcfg (ustr ''pii_tagger'') (PStr (ustr ''pii_regex_v2'')))
           (doc_id d) (doc_text d) (doc_source d) = Inr spans"
    and "spans \<noteq> []"
    and "mask_spans_token (doc_text d) spans
           (dict_get_default dtcfg (ustr ''mask_token'') (PStr (ustr ''<PII>''))) = Inl msg"
  shows "pii_try find_pii_spans dtcfg d = Inl msg"
  using assms by (simp add: pii_try_def Let_def)

lemma pii_try_masks:
  assumes "hashable (dict_get_default dtcfg (ustr ''pii_tagger'') (PStr (ustr ''pii_regex_v2'')))"
    and "find_pii_spans (dict_get_default dtcfg (ustr ''pii_tagger'') (PStr (ustr ''pii_regex_v2'')))
           (doc_id d) (doc_text d) (doc_source d) = Inr spans"
    and "spans \<noteq> []"
    and "dict_get_default dtcfg (ustr ''mask_token'') (PStr (ustr ''<PII>'')) = PStr tok"
  shows "pii_try find_pii_spans dtcfg d =
     Inr (d\<lparr>doc_text := mask_spans (doc_text d) spans tok,
            doc_metadata :=
              dict_set (dict_set (doc_metadata d) (ustr ''pii_masked'') (PBool True))
                (ustr ''pii_span_count'') (PInt (int (length spans)))\<rparr>)"
  using assms by (simp add: pii_try_def Let_def mask_spans_token_def)

text \<open>
  Claim C6. With processing and the toolkit stage enabled, let \<open>d1\<close> be the document
  after the normalization stage. If the \<open>try\<close> block raises with message \<open>msg\<close>, then
  \<open>process_doc\<close> returns normally; the document returned is \<open>d1\<close> with
  \<open>metadata.dolma_toolkit_error\<close> set to \<open>msg\<close>, so its text is the normalized, unmasked
  text. The block raises when the tagger raises and when joining the masked pieces
  raises.
\<close>

theorem pii_error_recorded:
  "(get_processing_cfg cfg = PDict pcfg
    \<and> truthy (dict_get_default pcfg (ustr ''enabled'') (PBool False))
    \<and> normalize_stage nf (dict_block pcfg (ustr ''normalize'')) d = Inr d1
    \<and> dtcfg = dict_block pcfg (ustr ''dolma_toolkit'')
    \<and> truthy (dict_get_default dtcfg (ustr ''enabled'') (PBool False))
    \<and> pii_try find_pii_spans dtcfg d1 = Inl msg
    \<longrightarrow> (\<exists>d'. process_doc nf find_pii_spans cfg d = Inr d'
          \<and> doc_text d' = doc_text d1
          \<and> dict_get (doc_metadata d') (ustr ''dolma_toolkit_error'') = PStr msg
          \<and> d' = d1\<lparr>doc_metadata := dict_set (doc_metadata d1) (ustr ''dolma_toolkit_error'') (PStr msg)\<rparr>))
   \<and> (tagger_name = dict_get_default dtcfg (ustr ''pii_tagger'') (PStr (ustr ''pii_regex_v2''))
      \<and> hashable tagger_name
      \<and> find_pii_spans tagger_name (doc_id d1) (doc_text d1) (doc_source d1) = Inl msg
      \<longrightarrow> pii_try find_pii_spans dtcfg d1 = Inl msg)
   \<and> (tagger_name = dict_get_default dtcfg (ustr ''pii_tagger'') (PStr (ustr ''pii_regex_v2''))
      \<and> hashable tagger_name
      \<and> find_pii_spans tagger_name (doc_id d1) (doc_text d1) (doc_source d1) = Inr spans \<and> spans \<noteq> []
      \<and> mask_spans_token (doc_text d1) spans
           (dict_get_default dtcfg (ustr ''mask_token'') (PStr (ustr ''<PII>''))) = Inl msg
      \<longrightarrow> pii_try find_pii_spans dtcfg d1 = Inl msg)"
proof (intro conjI impI)
  assume a: "get_processing_cfg cfg = PDict pcfg
    \<and> truthy (dict_get_default pcfg (ustr ''enabled'') (PBool False))
    \<and> normalize_stage nf (dict_block pcfg (ustr ''normalize'')) d = Inr d1
    \<and> dtcfg = dict_block pcfg (ustr ''dolma_toolkit'')
    \<and> truthy (dict_get_default dtcfg (ustr ''enabled'') (PBool False))
    \<and> pii_try find_pii_spans dtcfg d1 = Inl msg"
  then have dt: "dtcfg = dict_block pcfg (ustr ''dolma_toolkit'')"
    by blast
  from a have "process_doc nf find_pii_spans cfg d = Inr (pii_stage find_pii_spans dtcfg d1)"
    unfolding dt by (intro process_doc_enabled) blast+
  moreover from a have pt: "pii_try find_pii_spans dtcfg d1 = Inl msg"
    by blast
  then have "pii_stage find_pii_spans dtcfg d1
      = d1\<lparr>doc_metadata := dict_set (doc_metadata d1) (ustr ''dolma_toolkit_error'') (PStr msg)\<rparr>"
    by (simp add: pii_stage_def)
  ultimately show "\<exists>d'. process_doc nf find_pii_spans cfg d = Inr d'
          \<and> doc_text d' = doc_text d1
          \<and> dict_get (doc_metadata d') (ustr ''dolma_toolkit_error'') = PStr msg
          \<and> d' = d1\<lparr>doc_metadata := dict_set (doc_metadata d1) (ustr ''dolma_toolkit_error'') (PStr msg)\<rparr>"
    by (simp add: dict_get_dict_set)
next
  assume "tagger_name = dict_get_default dtcfg (ustr ''pii_tagger'') (PStr (ustr ''pii_regex_v2''))
      \<and> hashable tagger_name
      \<and> find_pii_spans tagger_name (doc_id d1) (doc_text d1) (doc_source d1) = Inl msg"
  then show "pii_try find_pii_spans dtcfg d1 = Inl msg"
    by (intro pii_try_tagger_raises) blast+
next
  assume "tagger_name = dict_get_default dtcfg (ustr ''pii_tagger'') (PStr (ustr ''pii_regex_v2''))
      \<and> hashable tagger_name
      \<and> find_pii_spans tagger_name (doc_id d1) (doc_text d1) (doc_source d1) = Inr spans \<and> spans \<noteq> []
      \<and> mask_spans_token (doc_text d1) spans
           (dict_get_default dtcfg (ustr ''mask_token'') (PStr (ustr ''<PII>''))) = Inl msg"
  then show "pii_try find_pii_spans dtcfg d1 = Inl msg"
    by (intro pii_try_join_raises [where spans = spans]) blast+
qed

text \<open>
  Claim C8. With processing and the toolkit stage enabled, a tagger that returns a
  non-empty list of spans for the normalized document \<open>d1\<close>, and a mask token that is a
  string, \<open>process_doc\<close> returns a document whose metadata has \<open>pii_masked\<close> true and
  \<open>pii_span_count\<close> equal to the length of the list the tagger returned, and whose text
  is \<open>mask_spans\<close> of the normalized text: for spans ending at non-negative offsets, the
  text with the mask token in place of each merged span.
\<close>

theorem pii_masking_metadata:
  "get_processing_cfg cfg = PDict pcfg
    \<and> truthy (dict_get_default pcfg (ustr ''enabled'') (PBool False))
    \<and> normalize_stage nf (dict_block pcfg (ustr ''normalize'')) d = Inr d1
    \<and> dtcfg = dict_block pcfg (ustr ''dolma_toolkit'')
    \<and> truthy (dict_get_default dtcfg (ustr ''enabled'') (PBool False))
    \<and> tagger_name = dict_get_default dtcfg (ustr ''pii_tagger'') (PStr (ustr ''pii_regex_v2''))
    \<and> hashable tagger_name
    \<and> find_pii_spans tagger_name (doc_id d1) (doc_text d1) (doc_source d1) = Inr spans \<and> spans \<noteq> []
    \<and> dict_get_default dtcfg (ustr ''mask_token'') (PStr (ustr ''<PII>'')) = PStr tok
    \<longrightarrow> (\<exists>d'. process_doc nf find_pii_spans cfg d = Inr d'
          \<and> dict_get (doc_metadata d') (ustr ''pii_masked'') = PBool True
          \<and> dict_get (doc_metadata d') (ustr ''pii_span_count'') = PInt (int (length spans))
          \<and> doc_text d' = mask_spans (doc_text d1) spans tok
          \<and> ((\<forall>(s, e) \<in> set spans. s < e \<longrightarrow> 0 \<le> e) \<longrightarrow>
               doc_text d' = masked (doc_text d1) tok 0 (merge_spans spans)))"
proof
  assume a: "get_processing_cfg cfg = PDict pcfg
    \<and> truthy (dict_get_default pcfg (ustr ''enabled'') (PBool False))
    \<and> normalize_stage nf (dict_block pcfg (ustr ''normalize'')) d = Inr d1
    \<and> dtcfg = dict_block pcfg (ustr ''dolma_toolkit'')
    \<and> truthy (dict_get_default dtcfg (ustr ''enabled'') (PBool False))
    \<and> tagger_name = dict_get_default dtcfg (ustr ''pii_tagger'') (PStr (ustr ''pii_regex_v2''))
    \<and> hashable tagger_name
    \<and> find_pii_spans tagger_name (doc_id d1) (doc_text d1) (doc_source d1) = Inr spans \<and> spans \<noteq> []
    \<and> dict_get_default dtcfg (ustr ''mask_token'') (PStr (ustr ''<PII>'')) = PStr tok"
  let ?d' = "d1\<lparr>doc_text := mask_spans (doc_text d1) spans tok,
            doc_metadata :=
              dict_set (dict_set (doc_metadata d1) (ustr ''pii_masked'') (PBool True))
                (ustr ''pii_span_count'') (PInt (int (length spans)))\<rparr>"
  from a have dt: "dtcfg = dict_block pcfg (ustr ''dolma_toolkit'')"
    and tn: "tagger_name = dict_get_default dtcfg (ustr ''pii_tagger'') (PStr (ustr ''pii_regex_v2''))"
    by blast+
  from a have "pii_try find_pii_spans dtcfg d1 = Inr ?d'"
    unfolding tn by (intro pii_try_masks) blast+
  then have "pii_stage find_pii_spans dtcfg d1 = ?d'"
    by (simp add: pii_stage_def)
  moreover from a have "process_doc nf find_pii_spans cfg d = Inr (pii_stage find_pii_spans dtcfg d1)"
    unfolding dt by (intro process_doc_enabled) blast+
  ultimately have p: "process_doc nf find_pii_spans cfg d = Inr ?d'"
    by simp
  have k: "ustr ''pii_masked'' \<noteq> ustr ''pii_span_count''"
    by (simp add: ustr_def)
  have m: "(\<forall>(s, e) \<in> set spans. s < e \<longrightarrow> 0 \<le> e) \<longrightarrow>
      mask_spans (doc_text d1) spans tok = masked (doc_text d1) tok 0 (merge_spans spans)"
  proof
    assume "\<forall>(s, e) \<in> set spans. s < e \<longrightarrow> 0 \<le> e"
    then have "\<forall>x\<in>set spans. fst x < snd x \<longrightarrow> 0 \<le> snd x"
      by auto
    then show "mask_spans (doc_text d1) spans tok = masked (doc_text d1) tok 0 (merge_spans spans)"
      by (rule mask_spans_masked)
  qed
  show "\<exists>d'. process_doc nf find_pii_spans cfg d = Inr d'
          \<and> dict_get (doc_metadata d') (ustr ''pii_masked'') = PBool True
          \<and> dict_get (doc_metadata d') (ustr ''pii_span_count'') = PInt (int (length spans))
          \<and> doc_text d' = mask_spans (doc_text d1) spans tok
          \<and> ((\<forall>(s, e) \<in> set spans. s < e \<longrightarrow> 0 \<le> e) \<longrightarrow>
               doc_text d' = masked (doc_text d1) tok 0 (merge_spans spans))"
    using p k m by (simp add: dict_get_dict_set)
qed


lemmas eval_defs =
  get_processing_cfg_def dict_get_def dict_get_default_def dict_block_def py_or_def ustr_def
  normalize_stage_def normalize_text_def unicode_stage_def lower_is_none_def ascii_lower_def
  normalize_acute_def strip_def is_space_def

theorem pii_error_recorded_witness:
  "process_doc normalize_acute (\<lambda>tagger_name ident text source. Inl (ustr ''no tagger''))
     [(ustr ''processing'',
       PDict [(ustr ''enabled'', PBool True),
              (ustr ''dolma_toolkit'', PDict [(ustr ''enabled'', PBool True)])])]
     \<lparr>doc_id = ustr ''7'', doc_text = ustr ''SSN  12'', doc_source = ustr ''ds'',
      doc_created = PStr [], doc_added = PStr [], doc_version = PNone, doc_metadata = []\<rparr>
   = Inr \<lparr>doc_id = ustr ''7'', doc_text = ustr ''SSN 12'', doc_source = ustr ''ds'',
          doc_created = PStr [], doc_added = PStr [], doc_version = PNone,
          doc_metadata = [(ustr ''dolma_toolkit_error'', PStr (ustr ''no tagger''))]\<rparr>
   \<and> process_doc normalize_acute (\<lambda>tagger_name ident text source. Inr [(0, 3)])
     [(ustr ''processing'',
       PDict [(ustr ''enabled'', PBool True),
              (ustr ''dolma_toolkit'',
               PDict [(ustr ''enabled'', PBool True), (ustr ''mask_token'', PInt 7)])])]
     \<lparr>doc_id = ustr ''7'', doc_text = ustr ''SSN  12'', doc_source = ustr ''ds'',
      doc_created = PStr [], doc_added = PStr [], doc_version = PNone, doc_metadata = []\<rparr>
   = Inr \<lparr>doc_id = ustr ''7'', doc_text = ustr ''SSN 12'', doc_source = ustr ''ds'',
          doc_created = PStr [], doc_added = PStr [], doc_version = PNone,
          doc_metadata =
            [(ustr ''dolma_toolkit_error'',
              PStr (ustr ''sequence item 0: expected str instance, int found''))]\<rparr>"
proof -
  let ?d = "\<lparr>doc_id = ustr ''7'', doc_text = ustr ''SSN  12'', doc_source = ustr ''ds'',
      doc_created = PStr [], doc_added = PStr [], doc_version = PNone, doc_metadata = []\<rparr>"
  let ?d1 = "\<lparr>doc_id = ustr ''7'', doc_text = ustr ''SSN 12'', doc_source = ustr ''ds'',
      doc_created = PStr [], doc_added = PStr [], doc_version = PNone, doc_metadata = []\<rparr>"
  let ?dt1 = "[(ustr ''enabled'', PBool True)]"
  let ?dt2 = "[(ustr ''enabled'', PBool True), (ustr ''mask_token'', PInt 7)]"
  let ?p1 = "[(ustr ''enabled'', PBool True), (ustr ''dolma_toolkit'', PDict ?dt1)]"
  let ?p2 = "[(ustr ''enabled'', PBool True), (ustr ''dolma_toolkit'', PDict ?dt2)]"
  let ?raise = "\<lambda>tagger_name ident text source. Inl (ustr ''no tagger'') :: pystr + span list"
  let ?spans = "\<lambda>tagger_name ident text source. Inr [(0, 3)] :: pystr + span list"
  let ?tn = "PStr (ustr ''pii_regex_v2'')"
  have c1: "get_processing_cfg [(ustr ''processing'', PDict ?p1)] = PDict ?p1"
    and c2: "get_processing_cfg [(ustr ''processing'', PDict ?p2)] = PDict ?p2"
    by (simp_all add: eval_defs)
  have e1: "truthy (dict_get_default ?p1 (ustr ''enabled'') (PBool False))"
    and e2: "truthy (dict_get_default ?p2 (ustr ''enabled'') (PBool False))"
    by (simp_all add: eval_defs)
  have n1: "normalize_stage normalize_acute (dict_block ?p1 (ustr ''normalize'')) ?d = Inr ?d1"
    and n2: "normalize_stage normalize_acute (dict_block ?p2 (ustr ''normalize'')) ?d = Inr ?d1"
    by (simp_all add: eval_defs)
  have b1: "?dt1 = dict_block ?p1 (ustr ''dolma_toolkit'')"
    and b2: "?dt2 = dict_block ?p2 (ustr ''dolma_toolkit'')"
    by (simp_all add: eval_defs)
  have t1: "truthy (dict_get_default ?dt1 (ustr ''enabled'') (PBool False))"
    and t2: "truthy (dict_get_default ?dt2 (ustr ''enabled'') (PBool False))"
    by (simp_all add: eval_defs)
  have g1: "?tn = dict_get_default ?dt1 (ustr ''pii_tagger'') (PStr (ustr ''pii_regex_v2''))"
    and g2: "?tn = dict_get_default ?dt2 (ustr ''pii_tagger'') (PStr (ustr ''pii_regex_v2''))"
    and h: "hashable ?tn"
    by (simp_all add: eval_defs)
  have r1: "?raise ?tn (doc_id ?d1) (doc_text ?d1) (doc_source ?d1) = Inl (ustr ''no tagger'')"
    by simp
  have r2: "?spans ?tn (doc_id ?d1) (doc_text ?d1) (doc_source ?d1) = Inr [(0, 3)] \<and> [(0, 3) :: span] \<noteq> []"
    by simp
  have j: "mask_spans_token (doc_text ?d1) [(0, 3)]
      (dict_get_default ?dt2 (ustr ''mask_token'') (PStr (ustr ''<PII>'')))
      = Inl (ustr ''sequence item 0: expected str instance, int found'')"
    by (simp add: mask_spans_token_def merge_spans_def join_message_def dec_digits.simps eval_defs)
  from pii_error_recorded [of "[(ustr ''processing'', PDict ?p1)]" ?p1 normalize_acute ?d ?d1 ?dt1
      ?raise "ustr ''no tagger''" ?tn] g1 h r1
  have "pii_try ?raise ?dt1 ?d1 = Inl (ustr ''no tagger'')"
    by blast
  with pii_error_recorded [of "[(ustr ''processing'', PDict ?p1)]" ?p1 normalize_acute ?d ?d1 ?dt1
      ?raise "ustr ''no tagger''"] c1 e1 n1 b1 t1
  have "process_doc normalize_acute ?raise [(ustr ''processing'', PDict ?p1)] ?d
      = Inr (?d1\<lparr>doc_metadata := dict_set (doc_metadata ?d1) (ustr ''dolma_toolkit_error'')
              (PStr (ustr ''no tagger''))\<rparr>)"
    by blast
  then have w1: "process_doc normalize_acute ?raise [(ustr ''processing'', PDict ?p1)] ?d
      = Inr \<lparr>doc_id = ustr ''7'', doc_text = ustr ''SSN 12'', doc_source = ustr ''ds'',
          doc_created = PStr [], doc_added = PStr [], doc_version = PNone,
          doc_metadata = [(ustr ''dolma_toolkit_error'', PStr (ustr ''no tagger''))]\<rparr>"
    by simp
  from pii_error_recorded [of "[(ustr ''processing'', PDict ?p2)]" ?p2 normalize_acute ?d ?d1 ?dt2
      ?spans "ustr ''sequence item 0: expected str instance, int found''" ?tn "[(0, 3)]"] g2 h r2 j
  have "pii_try ?spans ?dt2 ?d1 = Inl (ustr ''sequence item 0: expected str instance, int found'')"
    by blast
  with pii_error_recorded [of "[(ustr ''processing'', PDict ?p2)]" ?p2 normalize_acute ?d ?d1 ?dt2
      ?spans "ustr ''sequence item 0: expected str instance, int found''"] c2 e2 n2 b2 t2
  have "process_doc normalize_acute ?spans [(ustr ''processing'', PDict ?p2)] ?d
      = Inr (?d1\<lparr>doc_metadata := dict_set (doc_metadata ?d1) (ustr ''dolma_toolkit_error'')
              (PStr (ustr ''sequence item 0: expected str instance, int found''))\<rparr>)"
    by blast
  then have w2: "process_doc normalize_acute ?spans [(ustr ''processing'', PDict ?p2)] ?d
      = Inr \<lparr>doc_id = ustr ''7'', doc_text = ustr ''SSN 12'', doc_source = ustr ''ds'',
          doc_created = PStr [], doc_added = PStr [], doc_version = PNone,
          doc_metadata =
            [(ustr ''dolma_toolkit_error'',
              PStr (ustr ''sequence item 0: expected str instance, int found''))]\<rparr>"
    by simp
  from w1 w2 show ?thesis by blast
qed

theorem pii_masking_metadata_witness:
  "process_doc normalize_acute (\<lambda>tagger_name ident text source. Inr [(0, 3), (2, 5)])
     [(ustr ''processing'',
       PDict [(ustr ''enabled'', PBool True),
              (ustr ''dolma_toolkit'', PDict [(ustr ''enabled'', PBool True)])])]
     \<lparr>doc_id = ustr ''7'', doc_text = ustr ''SSN  12 is  it'', doc_source = ustr ''ds'',
      doc_created = PStr [], doc_added = PStr [], doc_version = PNone, doc_metadata = []\<rparr>
   = Inr \<lparr>doc_id = ustr ''7'', doc_text = ustr ''<PII>2 is it'', doc_source = ustr ''ds'',
          doc_created = PStr [], doc_added = PStr [], doc_version = PNone,
          doc_metadata = [(ustr ''pii_masked'', PBool True), (ustr ''pii_span_count'', PInt 2)]\<rparr>"
proof -
  let ?d = "\<lparr>doc_id = ustr ''7'', doc_text = ustr ''SSN  12 is  it'', doc_source = ustr ''ds'',
      doc_created = PStr [], doc_added = PStr [], doc_version = PNone, doc_metadata = []\<rparr>"
  let ?d1 = "\<lparr>doc_id = ustr ''7'', doc_text = ustr ''SSN 12 is it'', doc_source = ustr ''ds'',
      doc_created = PStr [], doc_added = PStr [], doc_version = PNone, doc_metadata = []\<rparr>"
  let ?dt = "[(ustr ''enabled'', PBool True)]"
  let ?p = "[(ustr ''enabled'', PBool True), (ustr ''dolma_toolkit'', PDict ?dt)]"
  let ?spans = "\<lambda>tagger_name ident text source. Inr [(0, 3), (2, 5)] :: pystr + span list"
  let ?tn = "PStr (ustr ''pii_regex_v2'')"
  have c: "get_processing_cfg [(ustr ''processing'', PDict ?p)] = PDict ?p"
    and e: "truthy (dict_get_default ?p (ustr ''enabled'') (PBool False))"
    and n: "normalize_stage normalize_acute (dict_block ?p (ustr ''normalize'')) ?d = Inr ?d1"
    and b: "?dt = dict_block ?p (ustr ''dolma_toolkit'')"
    and t: "truthy (dict_get_default ?dt (ustr ''enabled'') (PBool False))"
    and g: "?tn = dict_get_default ?dt (ustr ''pii_tagger'') (PStr (ustr ''pii_regex_v2''))"
    and h: "hashable ?tn"
    and k: "dict_get_default ?dt (ustr ''mask_token'') (PStr (ustr ''<PII>'')) = PStr (ustr ''<PII>'')"
    by (simp_all add: eval_defs)
  have r: "?spans ?tn (doc_id ?d1) (doc_text ?d1) (doc_source ?d1) = Inr [(0, 3), (2, 5)]
      \<and> [(0, 3), (2, 5) :: span] \<noteq> []"
    by simp
  have v: "\<forall>(s, e) \<in> set [(0, 3), (2, 5) :: span]. s < e \<longrightarrow> 0 \<le> e"
    by simp
  from pii_masking_metadata [of "[(ustr ''processing'', PDict ?p)]" ?p normalize_acute ?d ?d1 ?dt ?tn
      ?spans "[(0, 3), (2, 5)]" "ustr ''<PII>''"] c e n b t g h r k v
  obtain d' where p: "process_doc normalize_acute ?spans [(ustr ''processing'', PDict ?p)] ?d = Inr d'"
    and m: "dict_get (doc_metadata d') (ustr ''pii_masked'') = PBool True"
    and x: "doc_text d' = masked (doc_text ?d1) (ustr ''<PII>'') 0 (merge_spans [(0, 3), (2, 5)])"
    by blast
  have "process_doc normalize_acute ?spans [(ustr ''processing'', PDict ?p)] ?d
      = Inr \<lparr>doc_id = ustr ''7'', doc_text = mask_spans (ustr ''SSN 12 is it'') [(0, 3), (2, 5)] (ustr ''<PII>''),
          doc_source = ustr ''ds'',
          doc_created = PStr [], doc_added = PStr [], doc_version = PNone,
          doc_metadata = [(ustr ''pii_masked'', PBool True), (ustr ''pii_span_count'', PInt 2)]\<rparr>"
    using n by (simp add: process_doc_def pii_stage_def pii_try_def mask_spans_token_def Let_def
        get_processing_cfg_def dict_get_def dict_get_default_def dict_block_def py_or_def ustr_def)
  with p have "d' = \<lparr>doc_id = ustr ''7'', doc_text = mask_spans (ustr ''SSN 12 is it'') [(0, 3), (2, 5)] (ustr ''<PII>''),
          doc_source = ustr ''ds'',
          doc_created = PStr [], doc_added = PStr [], doc_version = PNone,
          doc_metadata = [(ustr ''pii_masked'', PBool True), (ustr ''pii_span_count'', PInt 2)]\<rparr>"
    by simp
  moreover from x have "doc_text d' = ustr ''<PII>2 is it''"
    by (simp add: merge_spans_def ustr_def)
  ultimately have "d' = \<lparr>doc_id = ustr ''7'', doc_text = ustr ''<PII>2 is it'',
          doc_source = ustr ''ds'',
          doc_created = PStr [], doc_added = PStr [], doc_version = PNone,
          doc_metadata = [(ustr ''pii_masked'', PBool True), (ustr ''pii_span_count'', PInt 2)]\<rparr>"
    by simp
  with p show ?thesis by simp
qed

section \<open>Proofs: sharding a stream\<close>

lemma save_shard_settings:
  assumes "map_of cfg (ustr ''storage'') = Some (PDict stor)"
    and "map_of stor (ustr ''mode'') = Some mode"
    and "map_of stor (ustr ''local_dir'') = Some (PStr local_dir)"
    and "map_of cfg (ustr ''aws'') = Some (PDict aws)"
    and "map_of aws (ustr ''s3_bucket'') = Some bucket"
    and "map_of aws (ustr ''s3_prefix'') = Some prefix"
  shows "save_shard repr cfg local_subdir s3_subdir i records
         = Inr (shard_writes repr mode local_dir bucket prefix local_subdir s3_subdir i records)"
  using assms
  by (simp add: save_shard_def shard_writes_def bind_err_def dict_item_def os_path_join_def Let_def)

lemma collect_Cons_Inr:
  assumes "collect one md (r # rs) = Inr (ds, md')"
  obtains d m1 ds' where "one md r = Inr (d, m1)" and "collect one m1 rs = Inr (ds', md')"
    and "ds = d # ds'"
  using assms by (auto simp: bind_err_def split: sum.splits prod.splits)

lemma collect_length: "collect one md rs = Inr (ds, md') \<Longrightarrow> length ds = length rs"
proof (induction rs arbitrary: md ds)
  case Nil
  then show ?case by simp
next
  case (Cons r rs)
  from Cons.prems obtain d m1 ds' where "collect one m1 rs = Inr (ds', md')" and "ds = d # ds'"
    by (rule collect_Cons_Inr)
  with Cons.IH show ?case by simp
qed

lemma stream_step_keep:
  assumes "produce ext dataset_name cfg dcfg (st_extra_md st) r = Inr (d, m1)"
    and "int (length (st_buffer st)) + 1 < shard_size"
  shows "stream_step ext dataset_name shard_size cfg dcfg local_subdir s3_subdir st r
         = Inr \<lparr>st_buffer = st_buffer st @ [d], st_shard_id = st_shard_id st,
                st_total = st_total st + 1, st_extra_md = m1, st_effects = st_effects st\<rparr>"
  using assms by (simp add: stream_step_def bind_err_def Let_def)

lemma stream_step_flush:
  assumes "produce ext dataset_name cfg dcfg (st_extra_md st) r = Inr (d, m1)"
    and "shard_size \<le> int (length (st_buffer st)) + 1"
    and "save_shard (ext_repr ext) cfg local_subdir s3_subdir (st_shard_id st)
           (published m1 (st_buffer st @ [d])) = Inr written"
  shows "stream_step ext dataset_name shard_size cfg dcfg local_subdir s3_subdir st r
         = Inr \<lparr>st_buffer = [], st_shard_id = st_shard_id st + 1,
                st_total = st_total st + 1, st_extra_md = m1,
                st_effects = st_effects st @ written\<rparr>"
  using assms by (simp add: stream_step_def bind_err_def Let_def)

lemma stream_loop_keep:
  assumes "collect (produce ext dataset_name cfg dcfg) (st_extra_md st) rs = Inr (ds, md')"
    and "int (length (st_buffer st) + length rs) < shard_size"
  shows "stream_loop (stream_step ext dataset_name shard_size cfg dcfg local_subdir s3_subdir) st rs
         = (st_effects st,
            Inr \<lparr>st_buffer = st_buffer st @ ds, st_shard_id = st_shard_id st,
                 st_total = st_total st + length rs, st_extra_md = md',
                 st_effects = st_effects st\<rparr>)"
  using assms
proof (induction rs arbitrary: st ds)
  case Nil
  then show ?case by simp
next
  case (Cons r rs)
  from Cons.prems(1) obtain d m1 ds' where
    p: "produce ext dataset_name cfg dcfg (st_extra_md st) r = Inr (d, m1)"
    and c: "collect (produce ext dataset_name cfg dcfg) m1 rs = Inr (ds', md')"
    and ds: "ds = d # ds'"
    by (rule collect_Cons_Inr)
  let ?st1 = "\<lparr>st_buffer = st_buffer st @ [d], st_shard_id = st_shard_id st,
                st_total = st_total st + 1, st_extra_md = m1, st_effects = st_effects st\<rparr>"
  have s: "stream_step ext dataset_name shard_size cfg dcfg local_subdir s3_subdir st r = Inr ?st1"
    using p Cons.prems(2) by (intro stream_step_keep) simp_all
  have "stream_loop (stream_step ext dataset_name shard_size cfg dcfg local_subdir s3_subdir) ?st1 rs
         = (st_effects ?st1,
            Inr \<lparr>st_buffer = st_buffer ?st1 @ ds', st_shard_id = st_shard_id ?st1,
                 st_total = st_total ?st1 + length rs, st_extra_md = md',
                 st_effects = st_effects ?st1\<rparr>)"
    using c Cons.prems(2) by (intro Cons.IH) simp_all
  then show ?case using s by (simp add: ds)
qed

lemma stream_loop_fill:
  assumes "collect (produce ext dataset_name cfg dcfg) (st_extra_md st) rs = Inr (ds, md')"
    and "rs \<noteq> []"
    and "int (length (st_buffer st) + length rs) = shard_size"
    and "save_shard (ext_repr ext) cfg local_subdir s3_subdir (st_shard_id st)
           (published md' (st_buffer st @ ds)) = Inr written"
  shows "stream_loop (stream_step ext dataset_name shard_size cfg dcfg local_subdir s3_subdir) st rs
         = (st_effects st @ written,
            Inr \<lparr>st_buffer = [], st_shard_id = st_shard_id st + 1,
                 st_total = st_total st + length rs, st_extra_md = md',
                 st_effects = st_effects st @ written\<rparr>)"
  using assms
proof (induction rs arbitrary: st ds)
  case Nil
  then show ?case by simp
next
  case (Cons r rs)
  from Cons.prems(1) obtain d m1 ds' where
    p: "produce ext dataset_name cfg dcfg (st_extra_md st) r = Inr (d, m1)"
    and c: "collect (produce ext dataset_name cfg dcfg) m1 rs = Inr (ds', md')"
    and ds: "ds = d # ds'"
    by (rule collect_Cons_Inr)
  show ?case
  proof (cases "rs = []")
    case True
    with c have e: "ds' = []" "md' = m1" by simp_all
    have "stream_step ext dataset_name shard_size cfg dcfg local_subdir s3_subdir st r
         = Inr \<lparr>st_buffer = [], st_shard_id = st_shard_id st + 1,
                st_total = st_total st + 1, st_extra_md = m1,
                st_effects = st_effects st @ written\<rparr>"
      using p Cons.prems(3,4) True by (intro stream_step_flush) (simp_all add: ds e)
    then show ?thesis using True e by simp
  next
    case False
    let ?st1 = "\<lparr>st_buffer = st_buffer st @ [d], st_shard_id = st_shard_id st,
                st_total = st_total st + 1, st_extra_md = m1, st_effects = st_effects st\<rparr>"
    have lt: "int (length (st_buffer st)) + 1 < shard_size"
      using False Cons.prems(3) by (cases rs) auto
    have s: "stream_step ext dataset_name shard_size cfg dcfg local_subdir s3_subdir st r = Inr ?st1"
      using p lt by (rule stream_step_keep)
    have "stream_loop (stream_step ext dataset_name shard_size cfg dcfg local_subdir s3_subdir) ?st1 rs
         = (st_effects ?st1 @ written,
            Inr \<lparr>st_buffer = [], st_shard_id = st_shard_id ?st1 + 1,
                 st_total = st_total ?st1 + length rs, st_extra_md = md',
                 st_effects = st_effects ?st1 @ written\<rparr>)"
      using c False Cons.prems(3,4) by (intro Cons.IH) (simp_all add: ds)
    then show ?thesis using s by simp
  qed
qed

lemma stream_loop_append:
  "stream_loop step st (xs @ ys) =
     (case stream_loop step st xs of
        (effects, Inl err) \<Rightarrow> (effects, Inl err)
      | (effects, Inr st') \<Rightarrow> stream_loop step st' ys)"
  by (induction xs arbitrary: st) (auto split: sum.splits)

lemma replicate_4: "replicate 4 x = [x, x, x, x]"
  by (simp add: numeral_eq_Suc)

lemma shard_name_0: "shard_name 0 = ustr ''part-00000.jsonl''"
  by (simp add: shard_name_def dec_digits.simps ustr_def replicate_4)

lemma shard_name_1: "shard_name 1 = ustr ''part-00001.jsonl''"
  by (simp add: shard_name_def dec_digits.simps ustr_def replicate_4)

lemma shard_writes_local:
  "shard_writes repr (PStr (ustr ''local'')) local_dir bucket prefix local_subdir s3_subdir i records
   = [LocalWrite (path_join_step (path_join_step local_dir local_subdir) (shard_name i)) records]"
  by (simp add: shard_writes_def save_records_def ustr_def)


lemma process_stream_unfold:
  assumes "get_processing_cfg cfg = PDict pcfg"
    and "md0 = combine_metadata (dict_block pcfg (ustr ''metadata''))
                 (dict_block dcfg (ustr ''metadata'')) run_md"
    and "stream_loop (stream_step ext dataset_name shard_size cfg dcfg local_subdir s3_subdir)
           \<lparr>st_buffer = [], st_shard_id = 0, st_total = 0, st_extra_md = md0, st_effects = []\<rparr>
           ds_iter = (effects, Inr st)"
  shows "process_stream ext dataset_name ds_iter shard_size cfg dcfg run_md local_subdir s3_subdir =
     (if st_buffer st \<noteq> [] then
        (case save_shard (ext_repr ext) cfg local_subdir s3_subdir (st_shard_id st)
                (published (st_extra_md st) (st_buffer st)) of
           Inl err \<Rightarrow> (effects, Inl err)
         | Inr written \<Rightarrow> (effects @ written, Inr (st_total st, st_shard_id st + 1)))
      else (effects, Inr (st_total st, st_shard_id st + 1)))"
  using assms by (simp add: process_stream_def Let_def)

text \<open>
  Claim C5. Let the configuration hold the storage and bucket settings, and let the
  pipeline produce the documents \<open>ds\<close> from 10,000 records. With \<open>shard_size = 10000\<close>,
  \<open>process_stream\<close> makes exactly the writes of shard 0, named \<open>part-00000.jsonl\<close>, with
  these 10,000 documents, and nothing else. With one more record it makes the writes of
  shard 0 with the first 10,000 documents and then those of shard 1, named
  \<open>part-00001.jsonl\<close>, with the one remaining document. In storage mode \<open>local\<close> the
  writes of a shard are one file. The counts returned are \<open>(10000, 2)\<close> and
  \<open>(10001, 2)\<close>.
\<close>

theorem sharding_boundaries:
  "map_of cfg (ustr ''storage'') = Some (PDict stor)
   \<and> map_of stor (ustr ''mode'') = Some mode
   \<and> map_of stor (ustr ''local_dir'') = Some (PStr local_dir)
   \<and> map_of cfg (ustr ''aws'') = Some (PDict aws)
   \<and> map_of aws (ustr ''s3_bucket'') = Some bucket
   \<and> map_of aws (ustr ''s3_prefix'') = Some prefix
   \<and> get_processing_cfg cfg = PDict pcfg
   \<and> md0 = combine_metadata (dict_block pcfg (ustr ''metadata'')) (dict_block dcfg (ustr ''metadata'')) run_md
   \<and> length rs = 10000
   \<and> collect (produce ext dataset_name cfg dcfg) md0 rs = Inr (ds, md1)
   \<longrightarrow>
     length ds = 10000
     \<and> process_stream ext dataset_name rs 10000 cfg dcfg run_md local_subdir s3_subdir
         = (shard_writes (ext_repr ext) mode local_dir bucket prefix local_subdir s3_subdir 0
              (published md1 ds),
            Inr (10000, 2))
     \<and> (produce ext dataset_name cfg dcfg md1 r = Inr (d, md2) \<longrightarrow>
          process_stream ext dataset_name (rs @ [r]) 10000 cfg dcfg run_md local_subdir s3_subdir
          = (shard_writes (ext_repr ext) mode local_dir bucket prefix local_subdir s3_subdir 0
               (published md1 ds)
             @ shard_writes (ext_repr ext) mode local_dir bucket prefix local_subdir s3_subdir 1
                 (published md2 [d]),
             Inr (10001, 2)))
     \<and> shard_name 0 = ustr ''part-00000.jsonl''
     \<and> shard_name 1 = ustr ''part-00001.jsonl''
     \<and> (mode = PStr (ustr ''local'') \<longrightarrow>
          shard_writes (ext_repr ext) mode local_dir bucket prefix local_subdir s3_subdir i records
          = [LocalWrite (path_join_step (path_join_step local_dir local_subdir) (shard_name i)) records])"
proof (intro impI)
  assume a: "map_of cfg (ustr ''storage'') = Some (PDict stor)
   \<and> map_of stor (ustr ''mode'') = Some mode
   \<and> map_of stor (ustr ''local_dir'') = Some (PStr local_dir)
   \<and> map_of cfg (ustr ''aws'') = Some (PDict aws)
   \<and> map_of aws (ustr ''s3_bucket'') = Some bucket
   \<and> map_of aws (ustr ''s3_prefix'') = Some prefix
   \<and> get_processing_cfg cfg = PDict pcfg
   \<and> md0 = combine_metadata (dict_block pcfg (ustr ''metadata'')) (dict_block dcfg (ustr ''metadata'')) run_md
   \<and> length rs = 10000
   \<and> collect (produce ext dataset_name cfg dcfg) md0 rs = Inr (ds, md1)"
  let ?step = "stream_step ext dataset_name 10000 cfg dcfg local_subdir s3_subdir"
  let ?w = "\<lambda>i records. shard_writes (ext_repr ext) mode local_dir bucket prefix local_subdir s3_subdir i records"
  let ?st0 = "\<lparr>st_buffer = [], st_shard_id = 0, st_total = 0, st_extra_md = md0, st_effects = []\<rparr>"
  let ?st1 = "\<lparr>st_buffer = [], st_shard_id = 1, st_total = 10000, st_extra_md = md1,
               st_effects = ?w 0 (published md1 ds)\<rparr>"
  from a have save: "\<And>i records. save_shard (ext_repr ext) cfg local_subdir s3_subdir i records
      = Inr (?w i records)"
    by (intro save_shard_settings) blast+
  from a have pc: "get_processing_cfg cfg = PDict pcfg"
    and md0: "md0 = combine_metadata (dict_block pcfg (ustr ''metadata''))
                 (dict_block dcfg (ustr ''metadata'')) run_md"
    and len: "length rs = 10000"
    and col: "collect (produce ext dataset_name cfg dcfg) md0 rs = Inr (ds, md1)"
    by blast+
  from col have lds: "length ds = 10000"
    using len by (simp add: collect_length)
  from len have ne: "rs \<noteq> []" by auto
  have "stream_loop ?step ?st0 rs
      = (st_effects ?st0 @ ?w 0 (published md1 ds),
         Inr \<lparr>st_buffer = [], st_shard_id = st_shard_id ?st0 + 1,
              st_total = st_total ?st0 + length rs, st_extra_md = md1,
              st_effects = st_effects ?st0 @ ?w 0 (published md1 ds)\<rparr>)"
    using col ne len by (intro stream_loop_fill) (simp_all add: save)
  then have loop: "stream_loop ?step ?st0 rs = (?w 0 (published md1 ds), Inr ?st1)"
    by (simp add: len)
  have one: "process_stream ext dataset_name rs 10000 cfg dcfg run_md local_subdir s3_subdir
         = (?w 0 (published md1 ds), Inr (10000, 2))"
    by (simp add: process_stream_unfold [OF pc md0 loop])
  have two: "produce ext dataset_name cfg dcfg md1 r = Inr (d, md2) \<longrightarrow>
          process_stream ext dataset_name (rs @ [r]) 10000 cfg dcfg run_md local_subdir s3_subdir
          = (?w 0 (published md1 ds) @ ?w 1 (published md2 [d]), Inr (10001, 2))"
  proof
    assume p: "produce ext dataset_name cfg dcfg md1 r = Inr (d, md2)"
    then have "collect (produce ext dataset_name cfg dcfg) (st_extra_md ?st1) [r] = Inr ([d], md2)"
      by (simp add: bind_err_def)
    then have "stream_loop ?step ?st1 [r]
         = (st_effects ?st1,
            Inr \<lparr>st_buffer = st_buffer ?st1 @ [d], st_shard_id = st_shard_id ?st1,
                 st_total = st_total ?st1 + length [r], st_extra_md = md2,
                 st_effects = st_effects ?st1\<rparr>)"
      by (rule stream_loop_keep) simp
    with loop have "stream_loop ?step ?st0 (rs @ [r])
         = (?w 0 (published md1 ds),
            Inr \<lparr>st_buffer = [d], st_shard_id = 1, st_total = 10001, st_extra_md = md2,
                 st_effects = ?w 0 (published md1 ds)\<rparr>)"
      by (simp add: stream_loop_append)
    then show "process_stream ext dataset_name (rs @ [r]) 10000 cfg dcfg run_md local_subdir s3_subdir
          = (?w 0 (published md1 ds) @ ?w 1 (published md2 [d]), Inr (10001, 2))"
      by (simp add: process_stream_unfold [OF pc md0] save)
  qed
  have loc: "mode = PStr (ustr ''local'') \<longrightarrow>
          ?w i records
          = [LocalWrite (path_join_step (path_join_step local_dir local_subdir) (shard_name i)) records]"
    by (simp add: shard_writes_local)
  from lds one two loc shard_name_0 shard_name_1
  show "length ds = 10000
     \<and> process_stream ext dataset_name rs 10000 cfg dcfg run_md local_subdir s3_subdir
         = (?w 0 (published md1 ds), Inr (10000, 2))
     \<and> (produce ext dataset_name cfg dcfg md1 r = Inr (d, md2) \<longrightarrow>
          process_stream ext dataset_name (rs @ [r]) 10000 cfg dcfg run_md local_subdir s3_subdir
          = (?w 0 (published md1 ds) @ ?w 1 (published md2 [d]), Inr (10001, 2)))
     \<and> shard_name 0 = ustr ''part-00000.jsonl''
     \<and> shard_name 1 = ustr ''part-00001.jsonl''
     \<and> (mode = PStr (ustr ''local'') \<longrightarrow>
          ?w i records
          = [LocalWrite (path_join_step (path_join_step local_dir local_subdir) (shard_name i)) records])"
    by blast
qed


lemma collect_replicate:
  assumes "one md r = Inr (d, md)"
  shows "collect one md (replicate n r) = Inr (replicate n d, md)"
  using assms by (induction n) (simp_all add: bind_err_def)

lemmas stream_eval_defs =
  process_stream_def stream_step_def produce_def build_doc_def process_doc_def save_shard_def
  save_records_def os_path_join_def path_join_step_def shard_name_def bind_err_def dict_item_def
  published_def combine_metadata_def dict_merge_def stable_id_def
  get_processing_cfg_def dict_get_def dict_get_default_def dict_block_def py_or_def ustr_def
  storage_cfg_def sample_ext_def dec_digits.simps replicate_4 Let_def

theorem sharding_boundaries_witness:
  "process_stream sample_ext (ustr ''ds'') (replicate 10000 [(ustr ''text'', PStr (ustr ''hello''))])
     10000 storage_cfg [] [] (ustr ''sub'') (ustr ''key'')
   = ([LocalWrite (ustr ''out/sub/part-00000.jsonl'')
         (replicate 10000
            \<lparr>doc_id = [], doc_text = ustr ''hello'', doc_source = ustr ''ds'', doc_created = PStr [],
             doc_added = PStr [], doc_version = PNone, doc_metadata = []\<rparr>)],
      Inr (10000, 2))
   \<and> process_stream sample_ext (ustr ''ds'')
       (replicate 10000 [(ustr ''text'', PStr (ustr ''hello''))] @ [[(ustr ''text'', PStr (ustr ''bye''))]])
       10000 storage_cfg [] [] (ustr ''sub'') (ustr ''key'')
   = ([LocalWrite (ustr ''out/sub/part-00000.jsonl'')
         (replicate 10000
            \<lparr>doc_id = [], doc_text = ustr ''hello'', doc_source = ustr ''ds'', doc_created = PStr [],
             doc_added = PStr [], doc_version = PNone, doc_metadata = []\<rparr>),
       LocalWrite (ustr ''out/sub/part-00001.jsonl'')
         [\<lparr>doc_id = [], doc_text = ustr ''bye'', doc_source = ustr ''ds'', doc_created = PStr [],
           doc_added = PStr [], doc_version = PNone, doc_metadata = []\<rparr>]],
      Inr (10001, 2))"
proof -
  let ?r = "[(ustr ''text'', PStr (ustr ''hello''))]"
  let ?r' = "[(ustr ''text'', PStr (ustr ''bye''))]"
  let ?d = "\<lparr>doc_id = [], doc_text = ustr ''hello'', doc_source = ustr ''ds'', doc_created = PStr [],
             doc_added = PStr [], doc_version = PNone, doc_metadata = []\<rparr>"
  let ?d' = "\<lparr>doc_id = [], doc_text = ustr ''bye'', doc_source = ustr ''ds'', doc_created = PStr [],
             doc_added = PStr [], doc_version = PNone, doc_metadata = []\<rparr>"
  let ?stor = "[(ustr ''mode'', PStr (ustr ''local'')), (ustr ''local_dir'', PStr (ustr ''out''))]"
  let ?aws = "[(ustr ''s3_bucket'', PStr (ustr ''bucket'')), (ustr ''s3_prefix'', PStr (ustr ''raw''))]"
  have c: "map_of storage_cfg (ustr ''storage'') = Some (PDict ?stor)
      \<and> map_of ?stor (ustr ''mode'') = Some (PStr (ustr ''local''))
      \<and> map_of ?stor (ustr ''local_dir'') = Some (PStr (ustr ''out''))
      \<and> map_of storage_cfg (ustr ''aws'') = Some (PDict ?aws)
      \<and> map_of ?aws (ustr ''s3_bucket'') = Some (PStr (ustr ''bucket''))
      \<and> map_of ?aws (ustr ''s3_prefix'') = Some (PStr (ustr ''raw''))
      \<and> get_processing_cfg storage_cfg = PDict []
      \<and> [] = combine_metadata (dict_block [] (ustr ''metadata'')) (dict_block [] (ustr ''metadata'')) []"
    by (simp add: storage_cfg_def get_processing_cfg_def dict_get_def dict_get_default_def
        dict_block_def py_or_def combine_metadata_def dict_merge_def ustr_def)
  have p: "produce sample_ext (ustr ''ds'') storage_cfg [] [] ?r = Inr (?d, [])"
    and p': "produce sample_ext (ustr ''ds'') storage_cfg [] [] ?r' = Inr (?d', [])"
    by (simp_all add: stream_eval_defs)
  have col: "collect (produce sample_ext (ustr ''ds'') storage_cfg []) [] (replicate 10000 ?r)
      = Inr (replicate 10000 ?d, [])"
    using p by (rule collect_replicate)
  have len: "length (replicate 10000 ?r) = 10000"
    by simp
  have paths: "path_join_step (path_join_step (ustr ''out'') (ustr ''sub'')) (ustr ''part-00000.jsonl'')
        = ustr ''out/sub/part-00000.jsonl''"
      "path_join_step (path_join_step (ustr ''out'') (ustr ''sub'')) (ustr ''part-00001.jsonl'')
        = ustr ''out/sub/part-00001.jsonl''"
    by (simp_all add: path_join_step_def ustr_def)
  note sb = sharding_boundaries [where cfg = storage_cfg and stor = ?stor
      and mode = "PStr (ustr ''local'')" and local_dir = "ustr ''out''" and aws = ?aws
      and bucket = "PStr (ustr ''bucket'')" and prefix = "PStr (ustr ''raw'')" and pcfg = "[]"
      and ?md0.0 = "[]" and dcfg = "[]" and run_md = "[]" and rs = "replicate 10000 ?r"
      and ext = sample_ext and dataset_name = "ustr ''ds''" and ds = "replicate 10000 ?d"
      and ?md1.0 = "[]" and r = ?r' and d = ?d' and ?md2.0 = "[]" and local_subdir = "ustr ''sub''"
      and s3_subdir = "ustr ''key''"]
  from sb [where i = 0 and records = "replicate 10000 ?d"] c len col
  have one: "process_stream sample_ext (ustr ''ds'') (replicate 10000 ?r) 10000 storage_cfg [] []
        (ustr ''sub'') (ustr ''key'')
      = (shard_writes (ext_repr sample_ext) (PStr (ustr ''local'')) (ustr ''out'') (PStr (ustr ''bucket''))
           (PStr (ustr ''raw'')) (ustr ''sub'') (ustr ''key'') 0 (published [] (replicate 10000 ?d)),
         Inr (10000, 2))"
    and w0: "shard_writes (ext_repr sample_ext) (PStr (ustr ''local'')) (ustr ''out'') (PStr (ustr ''bucket''))
           (PStr (ustr ''raw'')) (ustr ''sub'') (ustr ''key'') 0 (replicate 10000 ?d)
        = [LocalWrite (path_join_step (path_join_step (ustr ''out'') (ustr ''sub'')) (shard_name 0))
             (replicate 10000 ?d)]"
    and n0: "shard_name 0 = ustr ''part-00000.jsonl''"
    and n1: "shard_name 1 = ustr ''part-00001.jsonl''"
    by blast+
  from sb [where i = 1 and records = "[?d']"] c len col p'
  have two: "process_stream sample_ext (ustr ''ds'') (replicate 10000 ?r @ [?r']) 10000 storage_cfg [] []
        (ustr ''sub'') (ustr ''key'')
      = (shard_writes (ext_repr sample_ext) (PStr (ustr ''local'')) (ustr ''out'') (PStr (ustr ''bucket''))
           (PStr (ustr ''raw'')) (ustr ''sub'') (ustr ''key'') 0 (published [] (replicate 10000 ?d))
         @ shard_writes (ext_repr sample_ext) (PStr (ustr ''local'')) (ustr ''out'') (PStr (ustr ''bucket''))
           (PStr (ustr ''raw'')) (ustr ''sub'') (ustr ''key'') 1 (published [] [?d']),
         Inr (10001, 2))"
    and w1: "shard_writes (ext_repr sample_ext) (PStr (ustr ''local'')) (ustr ''out'') (PStr (ustr ''bucket''))
           (PStr (ustr ''raw'')) (ustr ''sub'') (ustr ''key'') 1 [?d']
        = [LocalWrite (path_join_step (path_join_step (ustr ''out'') (ustr ''sub'')) (shard_name 1)) [?d']]"
    by blast+
  have pub: "published [] (replicate 10000 ?d) = replicate 10000 ?d" "published [] [?d'] = [?d']"
    by (simp_all add: published_def)
  show ?thesis
    unfolding one two pub w0 w1 n0 n1 paths by simp
qed

text \<open>
  Claim C2. \<open>process_stream\<close> returns \<open>shard_id + 1\<close> whether or not a final partial
  shard is written. With no record it writes nothing and returns a shard count of 1;
  with two records and \<open>shard_size = 2\<close> it writes one shard and returns a shard count
  of 2.
\<close>

theorem shard_count_off_by_one:
  "process_stream sample_ext (ustr ''ds'') [] 10000 storage_cfg [] [] (ustr ''sub'') (ustr ''key'')
   = ([], Inr (0, 1))
   \<and> process_stream sample_ext (ustr ''ds'')
       [[(ustr ''text'', PStr (ustr ''hello''))], [(ustr ''text'', PStr (ustr ''bye''))]]
       2 storage_cfg [] [] (ustr ''sub'') (ustr ''key'')
   = ([LocalWrite (ustr ''out/sub/part-00000.jsonl'')
         [\<lparr>doc_id = [], doc_text = ustr ''hello'', doc_source = ustr ''ds'', doc_created = PStr [],
           doc_added = PStr [], doc_version = PNone, doc_metadata = []\<rparr>,
          \<lparr>doc_id = [], doc_text = ustr ''bye'', doc_source = ustr ''ds'', doc_created = PStr [],
           doc_added = PStr [], doc_version = PNone, doc_metadata = []\<rparr>]],
      Inr (2, 2))"
  by (simp add: stream_eval_defs)


lemmas pipeline_eval_defs =
  normalize_stage_def normalize_text_def unicode_stage_def lower_is_none_def ascii_lower_def
  normalize_acute_def strip_def is_space_def pii_stage_def pii_try_def mask_spans_token_def
  mask_spans_def merge_spans_def py_slice_def py_slice_from_def slice_bound_def
  masking_cfg_def metadata_cfg_def

text \<open>
  Claim C9. With the pipeline off, the document written for the specification's example
  (global \<open>{a: 1, b: 1}\<close>, dataset \<open>{b: 2, c: 3}\<close>, run metadata \<open>{run_id: "X"}\<close>)
  carries \<open>{a: 1, b: 2, c: 3, run: {run_id: "X"}}\<close>. With masking on and global
  metadata \<open>{a: 1}\<close>, the tagger flags the first of two records and nothing in the
  second; the second document is written with \<open>pii_masked\<close> and \<open>pii_span_count\<close> in
  its metadata all the same, because both documents hold the one metadata dictionary
  that \<open>process_doc\<close> wrote into.
\<close>

theorem shared_metadata_leak:
  "process_stream sample_ext (ustr ''ds'') [[(ustr ''text'', PStr (ustr ''hello''))]] 10000
     metadata_cfg [(ustr ''metadata'', PDict [(ustr ''b'', PInt 2), (ustr ''c'', PInt 3)])]
     [(ustr ''run_id'', PStr (ustr ''X''))] (ustr ''sub'') (ustr ''key'')
   = ([LocalWrite (ustr ''out/sub/part-00000.jsonl'')
         [\<lparr>doc_id = [], doc_text = ustr ''hello'', doc_source = ustr ''ds'', doc_created = PStr [],
           doc_added = PStr [], doc_version = PNone,
           doc_metadata =
             [(ustr ''a'', PInt 1), (ustr ''b'', PInt 2), (ustr ''c'', PInt 3),
              (ustr ''run'', PDict [(ustr ''run_id'', PStr (ustr ''X''))])]\<rparr>]],
      Inr (1, 1))
   \<and> process_stream sample_ext (ustr ''ds'')
       [[(ustr ''text'', PStr (ustr ''SSN 1''))], [(ustr ''text'', PStr (ustr ''hello''))]]
       10000 masking_cfg [] [] (ustr ''sub'') (ustr ''key'')
   = ([LocalWrite (ustr ''out/sub/part-00000.jsonl'')
         [\<lparr>doc_id = [], doc_text = ustr ''<PII> 1'', doc_source = ustr ''ds'', doc_created = PStr [],
           doc_added = PStr [], doc_version = PNone,
           doc_metadata =
             [(ustr ''a'', PInt 1), (ustr ''pii_masked'', PBool True),
              (ustr ''pii_span_count'', PInt 1)]\<rparr>,
          \<lparr>doc_id = [], doc_text = ustr ''hello'', doc_source = ustr ''ds'', doc_created = PStr [],
           doc_added = PStr [], doc_version = PNone,
           doc_metadata =
             [(ustr ''a'', PInt 1), (ustr ''pii_masked'', PBool True),
              (ustr ''pii_span_count'', PInt 1)]\<rparr>]],
      Inr (2, 1))"
  by (simp add: stream_eval_defs pipeline_eval_defs)

end
